theory Spec2Isabelle
  imports Main "HOL-Library.Word" "HOL-Library.Multiset"
begin

unbundle bit_operations_syntax

section \<open>fleetingd: the instance inventory\<close>

text \<open>
  A shallow embedding of the Go package \<open>fleetingd\<close>: the provider facade
  (\<open>InstanceGroup\<close>), the inventory (\<open>Inventory\<close>, with its IPAM set, its
  instance map, its readers-writer lock and its \<open>sync.Once\<close> prebuild guard) and the
  \<open>nftables-rules.tpl\<close> template.

  Conventions of the embedding.
  \<^item> A Go method on \<open>*Inventory\<close> takes the inventory and returns an \<open>outcome\<close>: the
    method returns (with the updated inventory and its result), panics, or blocks forever.
  \<^item> Every call that leaves the package (key generation, random bytes, file and image
    tools, \<open>net.Interfaces\<close>, the \<open>nft\<close> binary, the termination of a hypervisor child)
    takes its result from an environment record, one field per call site.
  \<^item> Goroutines are sequentialised: the reaper of a hypervisor child is the operation
    \<open>reaper\<close>, run when the environment says the child has exited.
  \<^item> Go's \<open>int\<close> is \<open>int\<close>: every value computed here lies between 0 and 255.
\<close>

subsection \<open>strconv.Itoa and encoding/hex\<close>

definition digits :: string where
  "digits = ''0123456789''"

function formatBits :: "nat \<Rightarrow> string" where
  "formatBits n = (if n < 10 then [digits ! n] else formatBits (n div 10) @ [digits ! (n mod 10)])"
  by pat_completeness auto
termination
  by (relation "measure (\<lambda>n. n)") auto

declare formatBits.simps [simp del]

definition Itoa :: "int \<Rightarrow> string" where
  "Itoa i = (if i < 0 then CHR ''-'' # formatBits (nat (- i)) else formatBits (nat i))"

definition hextable :: string where
  "hextable = ''0123456789abcdef''"

fun EncodeToString :: "8 word list \<Rightarrow> string" where
  "EncodeToString [] = []"
| "EncodeToString (v # src) =
     hextable ! unat (drop_bit 4 v) # hextable ! unat (v AND 0x0f) # EncodeToString src"

subsection \<open>Errors and outcomes\<close>

datatype error =
    ErrAddressSpaceExhausted    \<comment> \<open>\<open>errors.New("available VM address space exhausted")\<close>\<close>
  | ErrShuttingDown             \<comment> \<open>\<open>errors.New("system is shutting down")\<close>\<close>
  | ErrInstanceNotFound         \<comment> \<open>\<open>errors.New("instance not found")\<close>\<close>
  | ErrDestroyTimeout string    \<comment> \<open>\<open>fmt.Errorf("timed out waiting for instance %s to be removed")\<close>\<close>
  | ErrExternal string          \<comment> \<open>an error value handed back by a call outside the package\<close>

text \<open>
  In the environment records an error of a call outside the package is given by its
  message; the package passes it on unchanged, as \<open>ErrExternal\<close>.
\<close>

type_synonym external_error = string

subsection \<open>The data model\<close>

type_synonym key = "8 word list"

record InstanceInfo =
  Name :: string
  InstanceContextCancelFunc :: int
    \<comment> \<open>the cancel function of the child's context, represented by what cancelling it sets
        off: the reaper closure, which captured \<open>subnetBase\<close>\<close>
  HostTapIP :: string
  InstanceTapIP :: string
  InstanceTapMacAddress :: string
  SSHPublicKey :: "key option"
  SSHPrivateKey :: "key option"

record Inventory =
  lock_readers :: nat        \<comment> \<open>\<open>lock\<close>: read locks held on the \<open>sync.RWMutex\<close>\<close>
  lock_writer :: bool        \<comment> \<open>\<open>lock\<close>: the exclusive lock is held\<close>
  prebuild_done :: bool      \<comment> \<open>\<open>prebuild\<close>: the \<open>sync.Once\<close> has completed\<close>
  prebuild_m :: bool         \<comment> \<open>\<open>prebuild\<close>: the mutex of the \<open>sync.Once\<close> is held\<close>
  shuttingDown :: bool
  ipamSlots :: "string set"
  instances :: "string \<rightharpoonup> InstanceInfo"

record InstanceGroup =
  EgressInterface :: string
  VMDiskDir :: string
  VMSubnet :: string
  VMNumCPUCores :: "64 word"
  VMMemoryMegabytes :: "64 word"
  VMDiskSizeGB :: "64 word"
  VMPrebuildCloudinitExtraCmds :: "string list"
  VMEnableVirtioConsole :: bool

datatype 'a outcome =
    Returns Inventory 'a
  | Panics Inventory
  | Blocks Inventory

definition MaxIPAMSlots :: nat where
  "MaxIPAMSlots = 255 div 4"

definition NewInventory :: Inventory where
  "NewInventory = \<lparr> lock_readers = 0, lock_writer = False, prebuild_done = False,
     prebuild_m = False, shuttingDown = False, ipamSlots = {}, instances = Map.empty \<rparr>"

definition MakeAddress :: "InstanceGroup \<Rightarrow> int \<Rightarrow> string" where
  "MakeAddress g index = VMSubnet g @ Itoa index"

subsection \<open>sync.RWMutex\<close>

text \<open>
  \<open>RLock\<close> and \<open>Lock\<close> give \<open>None\<close> where the Go call would wait: in the sequential
  model nobody else is running who could release the lock, so the caller blocks forever.
  The unlock operations are only ever called by the holder.
\<close>

definition RLock :: "Inventory \<Rightarrow> Inventory option" where
  "RLock i = (if lock_writer i then None else Some (i\<lparr>lock_readers := Suc (lock_readers i)\<rparr>))"

definition RUnlock :: "Inventory \<Rightarrow> Inventory" where
  "RUnlock i = i\<lparr>lock_readers := lock_readers i - 1\<rparr>"

definition Lock :: "Inventory \<Rightarrow> Inventory option" where
  "Lock i = (if lock_writer i \<or> 0 < lock_readers i then None else Some (i\<lparr>lock_writer := True\<rparr>))"

definition Unlock :: "Inventory \<Rightarrow> Inventory" where
  "Unlock i = i\<lparr>lock_writer := False\<rparr>"

definition lock_free :: "Inventory \<Rightarrow> bool" where
  "lock_free i = (\<not> lock_writer i \<and> lock_readers i = 0)"

subsection \<open>Slot allocation\<close>

definition stepSize :: int where
  "stepSize = 4"

definition slot_key :: "InstanceGroup \<Rightarrow> int \<Rightarrow> string" where
  "slot_key g subnetBase = MakeAddress g subnetBase @ ''/30''"

text \<open>The \<open>for\<close> loop of \<open>BootInstance\<close> and \<open>PrebuildInstance\<close> that walks the subnets.\<close>

function walk_subnets :: "InstanceGroup \<Rightarrow> string set \<Rightarrow> int \<Rightarrow> error + int" where
  "walk_subnets g slots subnetBase =
     (if subnetBase \<ge> 255 - stepSize then Inl ErrAddressSpaceExhausted
      else if slot_key g subnetBase \<notin> slots then Inr subnetBase
      else walk_subnets g slots (subnetBase + 4))"
  by pat_completeness auto
termination
  by (relation "measure (\<lambda>(g, slots, subnetBase). nat (255 - subnetBase))")
    (auto simp: stepSize_def)

declare walk_subnets.simps [simp del]

subsection \<open>The packet-filter template \<open>templates/nftables-rules.tpl\<close>\<close>












subsection \<open>Inventory.ApplyNftables\<close>



definition range_keys :: "('k \<rightharpoonup> 'v) \<Rightarrow> 'k list \<Rightarrow> 'k list" where
  "range_keys m order = filter (\<lambda>k. m k \<noteq> None) order"

record nft_env =
  ParseFS :: "external_error option"
  range_order :: "string list"
  os_Create :: "external_error option"
  ExecuteTemplate :: "external_error option"
  nft_Run :: "external_error option"



definition ApplyNftables :: "InstanceGroup \<Rightarrow> nft_env \<Rightarrow> Inventory \<Rightarrow> error option outcome" where
  "ApplyNftables g env i =
     (case ParseFS env of
        Some err \<Rightarrow> Returns i (Some (ErrExternal err))
      | None \<Rightarrow>
     (case RLock i of
        None \<Rightarrow> Blocks i
      | Some i1 \<Rightarrow>
          let i2 = RUnlock i1 in
          (case os_Create env of
             Some err \<Rightarrow> Returns i2 (Some (ErrExternal err))
           | None \<Rightarrow>
          (case ExecuteTemplate env of
             Some err \<Rightarrow> Returns i2 (Some (ErrExternal err))
           | None \<Rightarrow>
          (case nft_Run env of
             Some err \<Rightarrow> Returns i2 (Some (ErrExternal err))
           | None \<Rightarrow> Returns i2 None)))))"

subsection \<open>The reaper goroutine\<close>

text \<open>
  The closure started by \<open>BootInstance\<close> and \<open>PrebuildInstance\<close> after
  \<open>hypervisorCommand.Start()\<close>, from the point where \<open>hypervisorCommand.Wait()\<close> has
  returned. It captured \<open>subnetBase\<close> and \<open>instanceName\<close>. Where its \<open>Lock\<close> would
  wait forever the goroutine stays parked and the inventory is as before.
\<close>

definition instanceName_of :: "int \<Rightarrow> string" where
  "instanceName_of subnetBase = ''fleetingd'' @ Itoa (subnetBase div stepSize)"

definition reaper :: "InstanceGroup \<Rightarrow> nft_env \<Rightarrow> int \<Rightarrow> Inventory \<Rightarrow> Inventory" where
  "reaper g env subnetBase i =
     (case Lock i of
        None \<Rightarrow> i
      | Some i1 \<Rightarrow>
          let i2 = i1\<lparr>ipamSlots := ipamSlots i1 - {slot_key g subnetBase}\<rparr>;
              i3 = i2\<lparr>instances := (instances i2)(instanceName_of subnetBase := None)\<rparr>;
              i4 = Unlock i3
          in (case ApplyNftables g env i4 of
                Returns i5 err \<Rightarrow> i5
              | Panics i5 \<Rightarrow> i5
              | Blocks i5 \<Rightarrow> i5))"

subsection \<open>Waiting for the TAP device\<close>

text \<open>
  The second \<open>for\<close> loop of \<open>BootInstance\<close> and \<open>PrebuildInstance\<close>.
  \<open>net_Interfaces k\<close> is what the call of \<open>net.Interfaces()\<close> returns in the iteration
  with \<open>checkCounter = k\<close>: an error or the names of the devices.
\<close>

function tap_wait :: "(nat \<Rightarrow> external_error + string list) \<Rightarrow> string \<Rightarrow> nat \<Rightarrow> error option" where
  "tap_wait net_Interfaces instanceName checkCounter =
     (case net_Interfaces checkCounter of
        Inl err \<Rightarrow> Some (ErrExternal err)
      | Inr interfaces \<Rightarrow>
          let tapReady = (instanceName \<in> set interfaces) in
          if tapReady \<or> checkCounter > 100 then None
          else tap_wait net_Interfaces instanceName (checkCounter + 1))"
  by pat_completeness auto
termination
  by (relation "measure (\<lambda>(f, n, checkCounter). 101 - checkCounter)") auto

declare tap_wait.simps [simp del]

subsection \<open>Inventory.BootInstance: the worker\<close>

text \<open>
  The results of the calls that \<open>BootInstance\<close> makes after the prebuild guard.
  \<open>createUserdata\<close>, \<open>createOverlay\<close> and \<open>getKernelFilePath\<close> are the methods of
  \<open>vm_images.go\<close>; what they return is decided by the file system and the image tools.
  \<open>rand_Read\<close> fills the four bytes of \<open>randomBytes\<close>.
\<close>

record boot_env =
  GenerateKey :: "external_error + key \<times> key"
  rand_Read :: "external_error + 8 word \<times> 8 word \<times> 8 word \<times> 8 word"
  createUserdata :: "external_error + string"
  createOverlay :: "external_error + string"
  getKernelFilePath :: "external_error + string"
  net_Interfaces :: "nat \<Rightarrow> external_error + string list"
  boot_nft :: nft_env

definition instanceMac_of :: "8 word \<times> 8 word \<times> 8 word \<times> 8 word \<Rightarrow> string" where
  "instanceMac_of rb =
     (case rb of (b0, b1, b2, b3) \<Rightarrow>
        let randomPart = EncodeToString [b0, b1, b2, b3] in
        ''de:51:'' @ take 2 randomPart @ '':'' @ take 2 (drop 2 randomPart) @ '':'' @
        take 2 (drop 4 randomPart) @ '':'' @ drop 6 randomPart)"

text \<open>
  \<open>BootInstance\<close> from the statement after \<open>i.lock.Lock()\<close> down to the
  \<open>i.lock.Unlock()\<close> that releases the lock for nftables: the inventory comes in with
  the exclusive lock held and goes out as the code leaves it, with the error or the name
  of the instance that was inserted. The hypervisor command line and
  \<open>hypervisorCommand.Start()\<close>, whose error the code drops, do not touch the inventory
  and are left out; the goroutine started next to them is \<open>reaper\<close>.
\<close>

definition boot_critical :: "InstanceGroup \<Rightarrow> boot_env \<Rightarrow> Inventory \<Rightarrow> Inventory \<times> (error + string)" where
  "boot_critical g env i =
     (if shuttingDown i then (Unlock i, Inl ErrShuttingDown)
      else
     (case walk_subnets g (ipamSlots i) 0 of
        Inl err \<Rightarrow> (Unlock i, Inl err)
      | Inr subnetBase \<Rightarrow>
          let i1 = i\<lparr>ipamSlots := insert (slot_key g subnetBase) (ipamSlots i)\<rparr> in
          (case GenerateKey env of
             Inl err \<Rightarrow> (Unlock i1, Inl (ErrExternal err))
           | Inr (pubKey, privKey) \<Rightarrow>
          let instanceIndex = subnetBase div stepSize;
              instanceName = ''fleetingd'' @ Itoa instanceIndex
          in
          (case rand_Read env of
             Inl err \<Rightarrow> (Unlock i1, Inl (ErrExternal err))
           | Inr randomBytes \<Rightarrow>
          let instanceMac = instanceMac_of randomBytes;
              hostTapIP = MakeAddress g (subnetBase + 1);
              instanceTapIP = MakeAddress g (subnetBase + 2)
          in
          (case createUserdata env of
             Inl err \<Rightarrow> (Unlock i1, Inl (ErrExternal err))
           | Inr userdataPath \<Rightarrow>
          (case createOverlay env of
             Inl err \<Rightarrow> (Unlock i1, Inl (ErrExternal err))
           | Inr overlayPath \<Rightarrow>
          (case getKernelFilePath env of
             Inl err \<Rightarrow> (Unlock i1, Inl (ErrExternal err))
           | Inr kernelFilePath \<Rightarrow>
          let i2 = i1\<lparr>instances := (instances i1)(instanceName \<mapsto>
                     \<lparr> Name = instanceName,
                       InstanceContextCancelFunc = subnetBase,
                       HostTapIP = hostTapIP,
                       InstanceTapIP = instanceTapIP,
                       InstanceTapMacAddress = instanceMac,
                       SSHPublicKey = Some pubKey,
                       SSHPrivateKey = Some privKey \<rparr>)\<rparr>
          in (Unlock i2, Inr instanceName))))))))"

text \<open>\<open>BootInstance\<close> after \<open>i.prebuild.Do\<close>.\<close>

definition boot_worker :: "InstanceGroup \<Rightarrow> boot_env \<Rightarrow> Inventory \<Rightarrow> error option outcome" where
  "boot_worker g env i =
     (case RLock i of
        None \<Rightarrow> Blocks i
      | Some i1 \<Rightarrow>
          let takenSlots = card (ipamSlots i1);
              i2 = RUnlock i1
          in
          if takenSlots \<ge> MaxIPAMSlots then Returns i2 (Some ErrAddressSpaceExhausted)
          else
          (case Lock i2 of
             None \<Rightarrow> Blocks i2
           | Some i3 \<Rightarrow>
          (case boot_critical g env i3 of
             (i4, Inl err) \<Rightarrow> Returns i4 (Some err)
           | (i4, Inr instanceName) \<Rightarrow>
          (case tap_wait (net_Interfaces env) instanceName 0 of
             Some err \<Rightarrow> Returns i4 (Some err)
           | None \<Rightarrow> ApplyNftables g (boot_nft env) i4))))"

subsection \<open>Inventory.PrebuildInstance and Inventory.RunPrebuild\<close>

text \<open>
  \<open>pb_child_exits\<close>: the prebuild VM terminates, so that \<open>hypervisorCommand.Wait()\<close>
  returns in the reaper, which then sends on \<open>prebuildDone\<close>. The model runs the reaper
  at the receive \<open><-prebuildDone\<close>.
\<close>

record prebuild_env =
  prepareWorkdir :: "external_error option"
  ensureKernel :: "external_error option"
  ensureDiskImage :: "external_error option"
  pb_rand_Read :: "external_error + 8 word \<times> 8 word \<times> 8 word \<times> 8 word"
  createUserdataPrebuild :: "external_error + string"
  getFilenameFromURL_diskImageURL :: "external_error + string"
  pb_getKernelFilePath :: "external_error + string"
  pb_net_Interfaces :: "nat \<Rightarrow> external_error + string list"
  pb_nft :: nft_env
  pb_child_exits :: bool
  pb_reaper_nft :: nft_env

text \<open>
  \<open>PrebuildInstance\<close> from the statement after \<open>i.lock.Lock()\<close> down to the
  \<open>i.lock.Unlock()\<close> before the TAP wait. The return after \<open>getFilenameFromURL\<close> has no
  \<open>Unlock\<close>.
\<close>

definition prebuild_critical :: "InstanceGroup \<Rightarrow> prebuild_env \<Rightarrow> Inventory \<Rightarrow> Inventory \<times> (error + int)" where
  "prebuild_critical g env i =
     (if shuttingDown i then (Unlock i, Inl ErrShuttingDown)
      else
     (case walk_subnets g (ipamSlots i) 0 of
        Inl err \<Rightarrow> (Unlock i, Inl err)
      | Inr subnetBase \<Rightarrow>
          let i1 = i\<lparr>ipamSlots := insert (slot_key g subnetBase) (ipamSlots i)\<rparr>;
              instanceIndex = subnetBase div stepSize;
              instanceName = ''fleetingd'' @ Itoa instanceIndex
          in
          (case pb_rand_Read env of
             Inl err \<Rightarrow> (Unlock i1, Inl (ErrExternal err))
           | Inr randomBytes \<Rightarrow>
          let instanceMac = instanceMac_of randomBytes;
              hostTapIP = MakeAddress g (subnetBase + 1);
              instanceTapIP = MakeAddress g (subnetBase + 2)
          in
          (case createUserdataPrebuild env of
             Inl err \<Rightarrow> (Unlock i1, Inl (ErrExternal err))
           | Inr userdataPath \<Rightarrow>
          (case getFilenameFromURL_diskImageURL env of
             Inl err \<Rightarrow> (i1, Inl (ErrExternal err))
           | Inr diskImageFileName \<Rightarrow>
          (case pb_getKernelFilePath env of
             Inl err \<Rightarrow> (Unlock i1, Inl (ErrExternal err))
           | Inr kernelFilePath \<Rightarrow>
          let i2 = i1\<lparr>instances := (instances i1)(instanceName \<mapsto>
                     \<lparr> Name = instanceName,
                       InstanceContextCancelFunc = subnetBase,
                       HostTapIP = hostTapIP,
                       InstanceTapIP = instanceTapIP,
                       InstanceTapMacAddress = instanceMac,
                       SSHPublicKey = None,
                       SSHPrivateKey = None \<rparr>)\<rparr>
          in (Unlock i2, Inr subnetBase)))))))"

definition PrebuildInstance :: "InstanceGroup \<Rightarrow> prebuild_env \<Rightarrow> Inventory \<Rightarrow> error option outcome" where
  "PrebuildInstance g env i =
     (case RLock i of
        None \<Rightarrow> Blocks i
      | Some i1 \<Rightarrow>
          let takenSlots = card (ipamSlots i1);
              i2 = RUnlock i1
          in
          if takenSlots \<ge> MaxIPAMSlots then Returns i2 (Some ErrAddressSpaceExhausted)
          else
          (case Lock i2 of
             None \<Rightarrow> Blocks i2
           | Some i3 \<Rightarrow>
          (case prebuild_critical g env i3 of
             (i4, Inl err) \<Rightarrow> Returns i4 (Some err)
           | (i4, Inr subnetBase) \<Rightarrow>
          (case tap_wait (pb_net_Interfaces env) (instanceName_of subnetBase) 0 of
             Some err \<Rightarrow> Returns i4 (Some err)
           | None \<Rightarrow>
          (case ApplyNftables g (pb_nft env) i4 of
             Panics i5 \<Rightarrow> Panics i5
           | Blocks i5 \<Rightarrow> Blocks i5
           | Returns i5 (Some err) \<Rightarrow> Returns i5 (Some err)
           | Returns i5 None \<Rightarrow>
               if pb_child_exits env \<and> Lock i5 \<noteq> None
               then Returns (reaper g (pb_reaper_nft env) subnetBase i5) None
               else Blocks i5)))))"

text \<open>
  \<open>ensureImages\<close> of \<open>vm_images.go\<close>. It asks for the kernel path and for the file name
  of the disk image with the very calls that \<open>PrebuildInstance\<close> makes later, on the same
  constants, so both get the same answers: \<open>pb_getKernelFilePath\<close> and
  \<open>getFilenameFromURL_diskImageURL\<close>. \<open>ensureKernel\<close> is the outcome of the kernel check
  and download between the two calls, \<open>ensureDiskImage\<close> that of the disk image check,
  download, conversion and resize after them.
\<close>

definition ensureImages :: "prebuild_env \<Rightarrow> external_error option" where
  "ensureImages env =
     (case pb_getKernelFilePath env of
        Inl err \<Rightarrow> Some err
      | Inr kernelFilePath \<Rightarrow>
     (case ensureKernel env of
        Some err \<Rightarrow> Some err
      | None \<Rightarrow>
     (case getFilenameFromURL_diskImageURL env of
        Inl err \<Rightarrow> Some err
      | Inr diskImageFileName \<Rightarrow> ensureDiskImage env)))"

definition RunPrebuild :: "InstanceGroup \<Rightarrow> prebuild_env \<Rightarrow> Inventory \<Rightarrow> error option outcome" where
  "RunPrebuild g env i =
     (case prepareWorkdir env of
        Some err \<Rightarrow> Returns i (Some (ErrExternal err))
      | None \<Rightarrow>
     (case ensureImages env of
        Some err \<Rightarrow> Returns i (Some (ErrExternal err))
      | None \<Rightarrow> PrebuildInstance g env i))"

subsection \<open>Inventory.BootInstance\<close>

text \<open>
  \<open>i.prebuild.Do(func() { err = i.RunPrebuild(instanceGroup) })\<close>: \<open>sync.Once\<close> runs the
  function on the first call only, holding its mutex, and is complete when that call of
  the function has returned or panicked, whatever the function did; a call of \<open>Do\<close>
  that finds the mutex held waits for it. The result is the value of the variable
  \<open>err\<close> after \<open>Do\<close>: \<open>nil\<close> when the function was not run.
\<close>

definition prebuild_Do :: "(Inventory \<Rightarrow> error option outcome) \<Rightarrow> Inventory \<Rightarrow> error option outcome" where
  "prebuild_Do f i =
     (if prebuild_done i then Returns i None
      else if prebuild_m i then Blocks i
      else
        (case f (i\<lparr>prebuild_m := True\<rparr>) of
           Returns i1 err \<Rightarrow> Returns (i1\<lparr>prebuild_done := True, prebuild_m := False\<rparr>) err
         | Panics i1 \<Rightarrow> Panics (i1\<lparr>prebuild_done := True, prebuild_m := False\<rparr>)
         | Blocks i1 \<Rightarrow> Blocks i1))"

definition BootInstance :: "InstanceGroup \<Rightarrow> prebuild_env \<Rightarrow> boot_env \<Rightarrow> Inventory \<Rightarrow> error option outcome" where
  "BootInstance g penv env i =
     (case prebuild_Do (RunPrebuild g penv) i of
        Panics i1 \<Rightarrow> Panics i1
      | Blocks i1 \<Rightarrow> Blocks i1
      | Returns i1 (Some err) \<Rightarrow> Returns i1 (Some err)
      | Returns i1 None \<Rightarrow> boot_worker g env i1)"

subsection \<open>Inventory.DestroyInstance and Inventory.DestroyAllInstances\<close>

text \<open>
  \<open>child_exit = Some k\<close>: the cancelled child has exited and its reaper has run when the
  wait loop looks at the map with \<open>waitCounter = k\<close>; \<open>None\<close>: the child does not exit
  while the loop runs.
\<close>

record destroy_env =
  child_exit :: "nat option"
  reaper_nft :: nft_env

function destroy_wait ::
  "InstanceGroup \<Rightarrow> destroy_env \<Rightarrow> string \<Rightarrow> int \<Rightarrow> nat \<Rightarrow> Inventory \<Rightarrow> error option outcome" where
  "destroy_wait g env name subnetBase waitCounter i =
     (let i0 = (if child_exit env = Some waitCounter then reaper g (reaper_nft env) subnetBase i else i) in
      case RLock i0 of
        None \<Rightarrow> Blocks i0
      | Some i1 \<Rightarrow>
          let instanceStillExists = (instances i1 name \<noteq> None);
              i2 = RUnlock i1
          in
          if \<not> instanceStillExists then Returns i2 None
          else if waitCounter + 1 > 100 then Returns i2 (Some (ErrDestroyTimeout name))
          else destroy_wait g env name subnetBase (waitCounter + 1) i2)"
  by pat_completeness auto
termination
  by (relation "measure (\<lambda>(g, env, name, subnetBase, waitCounter, i). 101 - waitCounter)") auto

declare destroy_wait.simps [simp del]

text \<open>
  \<open>i.instances[name].InstanceContextCancelFunc()\<close>: for a name that is not a key, the map
  gives the nil pointer, and reading the field through it panics, with the exclusive lock
  held.
\<close>

definition DestroyInstance :: "InstanceGroup \<Rightarrow> destroy_env \<Rightarrow> string \<Rightarrow> Inventory \<Rightarrow> error option outcome" where
  "DestroyInstance g env name i =
     (case Lock i of
        None \<Rightarrow> Blocks i
      | Some i1 \<Rightarrow>
          (case instances i1 name of
             None \<Rightarrow> Panics i1
           | Some instance \<Rightarrow>
               let i2 = Unlock i1 in
               destroy_wait g env name (InstanceContextCancelFunc instance) 0 i2))"

fun destroy_each ::
  "InstanceGroup \<Rightarrow> (string \<Rightarrow> destroy_env) \<Rightarrow> string list \<Rightarrow> Inventory \<Rightarrow> error option outcome" where
  "destroy_each g envs [] i = Returns i None"
| "destroy_each g envs (instanceToDestroy # rest) i =
     (case DestroyInstance g (envs instanceToDestroy) instanceToDestroy i of
        Panics i1 \<Rightarrow> Panics i1
      | Blocks i1 \<Rightarrow> Blocks i1
      | Returns i1 (Some err) \<Rightarrow> Returns i1 (Some err)
      | Returns i1 None \<Rightarrow> destroy_each g envs rest i1)"

definition DestroyAllInstances ::
  "InstanceGroup \<Rightarrow> string list \<Rightarrow> (string \<Rightarrow> destroy_env) \<Rightarrow> Inventory \<Rightarrow> error option outcome" where
  "DestroyAllInstances g order envs i =
     (case Lock i of
        None \<Rightarrow> Blocks i
      | Some i1 \<Rightarrow>
          let i2 = i1\<lparr>shuttingDown := True\<rparr>;
              instanceNames = range_keys (instances i2) order;
              i3 = Unlock i2
          in destroy_each g envs instanceNames i3)"

subsection \<open>Inventory.GetAllInstances and Inventory.GetConnectInfo\<close>

definition GetAllInstances :: "string list \<Rightarrow> Inventory \<Rightarrow> string list outcome" where
  "GetAllInstances order i =
     (case RLock i of
        None \<Rightarrow> Blocks i
      | Some i1 \<Rightarrow>
          let instanceNames = range_keys (instances i1) order in
          Returns (RUnlock i1) instanceNames)"

record ConnectInfo =
  ID :: string
  InternalAddr :: string
  Username :: string
  OS :: string
  Protocol :: string
  ProtocolPort :: nat
  Key :: "8 word list"
  Keepalive :: nat   \<comment> \<open>seconds\<close>
  Timeout :: nat     \<comment> \<open>seconds\<close>

text \<open>
  What the call \<open>ssh.MarshalPrivateKey(instance.SSHPrivateKey, "fleetingd")\<close> does: it
  returns a block, which \<open>pem.EncodeToMemory\<close> then encodes, or it returns an error, or it
  panics.
\<close>

datatype marshalled =
    Marshalled "8 word list"
  | MarshalFails external_error
  | MarshalPanics

text \<open>
  \<open>ssh.MarshalPrivateKey\<close> of \<open>golang.org/x/crypto\<close> on an \<open>ed25519.PrivateKey\<close>, which
  is what the inventory stores. It first reads its check bytes from \<open>rand.Reader\<close> and
  returns the error of that read. It then takes \<open>k[32:]\<close> for the public half, and this
  slice expression panics on a key of fewer than 32 bytes (for the nil key with
  \<open>slice bounds out of range [32:0]\<close>). Otherwise it returns the block. \<open>None\<close> is the nil
  key; \<open>check_Read\<close> is the result of the read, \<open>pem_of\<close> the encoded block of a key.
\<close>

record marshal_env =
  check_Read :: "external_error option"
  pem_of :: "key \<Rightarrow> 8 word list"

definition MarshalPrivateKey :: "marshal_env \<Rightarrow> key option \<Rightarrow> marshalled" where
  "MarshalPrivateKey env k =
     (case check_Read env of
        Some err \<Rightarrow> MarshalFails err
      | None \<Rightarrow>
          (case k of
             None \<Rightarrow> MarshalPanics
           | Some bytes \<Rightarrow>
               if length bytes < 32 then MarshalPanics else Marshalled (pem_of env bytes)))"

text \<open>
  \<open>GetConnectInfo\<close> takes the marshaller as \<open>marshal\<close>, so that what it does with the lock
  is stated for every behaviour of that call. Neither of the two error returns has an
  \<open>RUnlock\<close>, and a panic of the marshaller passes through the method with the read lock
  held. The field \<open>Arch\<close>, which is \<open>runtime.GOARCH\<close>, is left out of \<open>ConnectInfo\<close>.
\<close>

definition GetConnectInfo ::
  "(key option \<Rightarrow> marshalled) \<Rightarrow> string \<Rightarrow> Inventory \<Rightarrow> (error + ConnectInfo) outcome" where
  "GetConnectInfo marshal name i =
     (case RLock i of
        None \<Rightarrow> Blocks i
      | Some i1 \<Rightarrow>
          (case instances i1 name of
             None \<Rightarrow> Returns i1 (Inl ErrInstanceNotFound)
           | Some instance \<Rightarrow>
               (case marshal (SSHPrivateKey instance) of
                  MarshalPanics \<Rightarrow> Panics i1
                | MarshalFails err \<Rightarrow> Returns i1 (Inl (ErrExternal err))
                | Marshalled marshalledKey \<Rightarrow>
                    let connectionInfo =
                      \<lparr> ID = Name instance,
                        InternalAddr = InstanceTapIP instance,
                        Username = ''ubuntu'',
                        OS = ''linux'',
                        Protocol = ''ssh'',
                        ProtocolPort = 22,
                        Key = marshalledKey,
                        Keepalive = 10,
                        Timeout = 3 \<rparr>
                    in Returns (RUnlock i1) (Inr connectionInfo))))"

subsection \<open>The provider facade\<close>

function Increase_loop ::
  "InstanceGroup \<Rightarrow> (int \<Rightarrow> prebuild_env \<times> boot_env) \<Rightarrow> int \<Rightarrow> int \<Rightarrow> Inventory \<Rightarrow> (int \<times> error option) outcome" where
  "Increase_loop g envs n counter i =
     (if counter < n then
        (case BootInstance g (fst (envs counter)) (snd (envs counter)) i of
           Panics i1 \<Rightarrow> Panics i1
         | Blocks i1 \<Rightarrow> Blocks i1
         | Returns i1 (Some err) \<Rightarrow> Returns i1 (counter, Some err)
         | Returns i1 None \<Rightarrow> Increase_loop g envs n (counter + 1) i1)
      else Returns i (n, None))"
  by pat_completeness auto
termination
  by (relation "measure (\<lambda>(g, envs, n, counter, i). nat (n - counter))") auto

declare Increase_loop.simps [simp del]

definition Increase ::
  "InstanceGroup \<Rightarrow> (int \<Rightarrow> prebuild_env \<times> boot_env) \<Rightarrow> int \<Rightarrow> Inventory \<Rightarrow> (int \<times> error option) outcome" where
  "Increase g envs n i = Increase_loop g envs n 0 i"

fun Decrease_loop ::
  "InstanceGroup \<Rightarrow> (string \<times> destroy_env) list \<Rightarrow> string list \<Rightarrow> Inventory \<Rightarrow> string list outcome" where
  "Decrease_loop g [] removedInstances i = Returns i removedInstances"
| "Decrease_loop g ((instanceToRemove, env) # rest) removedInstances i =
     (case DestroyInstance g env instanceToRemove i of
        Panics i1 \<Rightarrow> Panics i1
      | Blocks i1 \<Rightarrow> Blocks i1
      | Returns i1 (Some err) \<Rightarrow> Decrease_loop g rest removedInstances i1
      | Returns i1 None \<Rightarrow> Decrease_loop g rest (removedInstances @ [instanceToRemove]) i1)"

text \<open>\<open>Decrease\<close>: each name of \<open>instances\<close> comes with the environment of its destroy.\<close>

definition Decrease :: "InstanceGroup \<Rightarrow> (string \<times> destroy_env) list \<Rightarrow> Inventory \<Rightarrow> string list outcome" where
  "Decrease g instances_envs i = Decrease_loop g instances_envs [] i"

definition Shutdown ::
  "InstanceGroup \<Rightarrow> string list \<Rightarrow> (string \<Rightarrow> destroy_env) \<Rightarrow> Inventory \<Rightarrow> error option outcome" where
  "Shutdown g order envs i = DestroyAllInstances g order envs i"

subsection \<open>Sequences of operations\<close>

text \<open>
  The calls that reach the inventory, and the exit of a hypervisor child on its own
  (\<open>ChildExits\<close>: the reaper of the named instance runs; a name without an instance has
  no child). A call that blocks leaves the inventory to the calls after it. A panic takes
  the process down: the sequence ends there, and \<open>run\<close> gives the inventory as the last
  operation that did not panic left it.
\<close>

datatype op =
    Boot prebuild_env boot_env
  | ChildExits nft_env string
  | Destroy destroy_env string
  | DestroyAll "string list" "string \<Rightarrow> destroy_env"
  | GetAll "string list"
  | ConnectInfoOf "key option \<Rightarrow> marshalled" string
  | Nftables nft_env

definition forget :: "'a outcome \<Rightarrow> unit outcome" where
  "forget out = (case out of Returns i r \<Rightarrow> Returns i () | Panics i \<Rightarrow> Panics i | Blocks i \<Rightarrow> Blocks i)"

definition inventory_of :: "'a outcome \<Rightarrow> Inventory" where
  "inventory_of out = (case out of Returns i r \<Rightarrow> i | Panics i \<Rightarrow> i | Blocks i \<Rightarrow> i)"

fun step :: "InstanceGroup \<Rightarrow> op \<Rightarrow> Inventory \<Rightarrow> unit outcome" where
  "step g (Boot penv env) i = forget (BootInstance g penv env i)"
| "step g (ChildExits env name) i =
     (case instances i name of
        None \<Rightarrow> Returns i ()
      | Some instance \<Rightarrow> Returns (reaper g env (InstanceContextCancelFunc instance) i) ())"
| "step g (Destroy env name) i = forget (DestroyInstance g env name i)"
| "step g (DestroyAll order envs) i = forget (DestroyAllInstances g order envs i)"
| "step g (GetAll order) i = forget (GetAllInstances order i)"
| "step g (ConnectInfoOf marshal name) i = forget (GetConnectInfo marshal name i)"
| "step g (Nftables env) i = forget (ApplyNftables g env i)"

fun run :: "InstanceGroup \<Rightarrow> op list \<Rightarrow> Inventory \<Rightarrow> Inventory" where
  "run g [] i = i"
| "run g (operation # rest) i =
     (case step g operation i of
        Returns i1 u \<Rightarrow> run g rest i1
      | Blocks i1 \<Rightarrow> run g rest i1
      | Panics i1 \<Rightarrow> i)"

text \<open>What a call returned, if it returned.\<close>

definition returned :: "'a outcome \<Rightarrow> 'a option" where
  "returned out = (case out of Returns i r \<Rightarrow> Some r | Panics i \<Rightarrow> None | Blocks i \<Rightarrow> None)"

text \<open>The call returned.\<close>

definition returns :: "'a outcome \<Rightarrow> bool" where
  "returns out = (returned out \<noteq> None)"

subsection \<open>A configuration and environments for concrete runs\<close>

definition example_group :: InstanceGroup where
  "example_group =
     \<lparr> EgressInterface = ''eth0'', VMDiskDir = ''/tmp/fleetingd'', VMSubnet = ''10.0.0.'',
       VMNumCPUCores = 8, VMMemoryMegabytes = 16384, VMDiskSizeGB = 30,
       VMPrebuildCloudinitExtraCmds = [], VMEnableVirtioConsole = False \<rparr>"

text \<open>Every step of \<open>ApplyNftables\<close> succeeds; the map is visited in the given order.\<close>

definition nft_ok :: "string list \<Rightarrow> nft_env" where
  "nft_ok order =
     \<lparr> ParseFS = None, range_order = order, os_Create = None, ExecuteTemplate = None,
       nft_Run = None \<rparr>"

text \<open>Every call succeeds, the TAP devices are there at the first look, the prebuild VM exits.\<close>

definition prebuild_ok :: prebuild_env where
  "prebuild_ok =
     \<lparr> prepareWorkdir = None, ensureKernel = None, ensureDiskImage = None,
       pb_rand_Read = Inr (0x01, 0x02, 0x03, 0x04),
       createUserdataPrebuild = Inr ''/tmp/fleetingd/.instance_data/fleetingd0_userdata.img'',
       getFilenameFromURL_diskImageURL = Inr ''noble-server-cloudimg-amd64.img'',
       pb_getKernelFilePath = Inr ''/tmp/fleetingd/noble-server-cloudimg-amd64-vmlinuz-generic'',
       pb_net_Interfaces = (\<lambda>k. Inr [''lo'', ''eth0'', ''fleetingd0'']),
       pb_nft = nft_ok [''fleetingd0''],
       pb_child_exits = True,
       pb_reaper_nft = nft_ok [] \<rparr>"

text \<open>Every call succeeds, and the TAP devices of the first three workers are there.\<close>

definition boot_ok :: boot_env where
  "boot_ok =
     \<lparr> GenerateKey = Inr ([0x0a], [0x0b]),
       rand_Read = Inr (0xde, 0xad, 0xbe, 0xef),
       createUserdata = Inr ''userdata.img'',
       createOverlay = Inr ''overlay.img'',
       getKernelFilePath = Inr ''/tmp/fleetingd/noble-server-cloudimg-amd64-vmlinuz-generic'',
       net_Interfaces = (\<lambda>k. Inr [''lo'', ''eth0'', ''fleetingd0'', ''fleetingd1'', ''fleetingd2'']),
       boot_nft = nft_ok [''fleetingd0'', ''fleetingd1'', ''fleetingd2''] \<rparr>"

text \<open>The cancelled child exits, and its reaper runs, before the second look at the map.\<close>

definition destroy_ok :: destroy_env where
  "destroy_ok = \<lparr> child_exit = Some 1, reaper_nft = nft_ok [''fleetingd0'', ''fleetingd1'', ''fleetingd2''] \<rparr>"

text \<open>The same environment for the destroy of every instance.\<close>

definition destroy_all_ok :: "string \<Rightarrow> destroy_env" where
  "destroy_all_ok name = destroy_ok"

text \<open>
  As \<open>boot_ok\<close>, but \<open>net.Interfaces()\<close> fails, and the \<open>nft\<close> binary would reject the
  ruleset if it were run.
\<close>

definition boot_interfaces_fail :: boot_env where
  "boot_interfaces_fail =
     boot_ok\<lparr> net_Interfaces := (\<lambda>k. Inl ''route ip+net: netlinkrib: too many open files''),
              boot_nft := (nft_ok [])\<lparr>nft_Run := Some ''exit status 1''\<rparr> \<rparr>"

text \<open>As \<open>boot_ok\<close>, but \<open>qemu-img create\<close> fails in \<open>createOverlay\<close>.\<close>

definition boot_overlay_fails :: boot_env where
  "boot_overlay_fails = boot_ok\<lparr> createOverlay := Inl ''exit status 1'' \<rparr>"

text \<open>As \<open>prebuild_ok\<close>, but the kernel download in \<open>ensureImages\<close> runs into its timeout.\<close>

definition prebuild_images_fail :: prebuild_env where
  "prebuild_images_fail =
     prebuild_ok\<lparr> ensureKernel := Some ''context deadline exceeded (Client.Timeout exceeded while awaiting headers)'' \<rparr>"

text \<open>As \<open>prebuild_ok\<close>, but \<open>getFilenameFromURL(diskImageURL)\<close> fails.\<close>

definition prebuild_url_fails :: prebuild_env where
  "prebuild_url_fails =
     prebuild_ok\<lparr> getFilenameFromURL_diskImageURL := Inl ''parse: invalid URL escape'' \<rparr>"

text \<open>As \<open>prebuild_ok\<close>, but the prebuild VM is still running.\<close>

definition prebuild_vm_runs :: prebuild_env where
  "prebuild_vm_runs = prebuild_ok\<lparr> pb_child_exits := False \<rparr>"

text \<open>The read of \<open>rand.Reader\<close> succeeds; the encoding is not looked into.\<close>

definition marshal_ok :: marshal_env where
  "marshal_ok = \<lparr> check_Read = None, pem_of = (\<lambda>k. k) \<rparr>"

text \<open>As \<open>marshal_ok\<close>, but the read of \<open>rand.Reader\<close> fails.\<close>

definition marshal_rand_fails :: marshal_env where
  "marshal_rand_fails = marshal_ok\<lparr> check_Read := Some ''unexpected EOF'' \<rparr>"


subsection \<open>Auxiliary notions for the proofs\<close>

text \<open>The inventory once the reaper of the child on \<open>subnetBase\<close> has been through it.\<close>

definition reaped :: "InstanceGroup \<Rightarrow> int \<Rightarrow> Inventory \<Rightarrow> Inventory" where
  "reaped g subnetBase i =
     i\<lparr>ipamSlots := ipamSlots i - {slot_key g subnetBase},
       instances := (instances i)(instanceName_of subnetBase := None)\<rparr>"

text \<open>
  \<open>i'\<close> is \<open>i\<close> with some slots released and some instances removed; the lock is left
  aside, and the prebuild guard may have moved on.
\<close>

definition removes :: "Inventory \<Rightarrow> Inventory \<Rightarrow> bool" where
  "removes i i' =
     (shuttingDown i' = shuttingDown i \<and>
      (prebuild_done i \<longrightarrow> prebuild_done i') \<and>
      (prebuild_m i \<and> \<not> prebuild_done i' \<longrightarrow> prebuild_m i') \<and>
      ipamSlots i' \<subseteq> ipamSlots i \<and>
      (\<forall>name. instances i' name = None \<or> instances i' name = instances i name))"

text \<open>The keys of all the subnets that the allocation loop can reach.\<close>

definition all_slots :: "InstanceGroup \<Rightarrow> string set" where
  "all_slots g = set (map (\<lambda>k. slot_key g (4 * k)) [0..62])"

text \<open>The names of the instances on the subnets that the allocation loop can reach.\<close>

definition all_names :: "string set" where
  "all_names = set (map (\<lambda>k. instanceName_of (4 * k)) [0..62])"

text \<open>
  What holds of the inventory between operations: the reserved keys and the registered
  names are those of the 63 subnets, and as long as the prebuild guard has not completed,
  nothing is reserved except, while the guard runs, the subnet of the prebuild instance.
\<close>

definition inventory_inv :: "InstanceGroup \<Rightarrow> Inventory \<Rightarrow> bool" where
  "inventory_inv g i =
     (ipamSlots i \<subseteq> all_slots g \<and> dom (instances i) \<subseteq> all_names \<and>
      (\<not> prebuild_done i \<longrightarrow> ipamSlots i \<subseteq> {slot_key g 0}) \<and>
      (\<not> prebuild_done i \<and> \<not> prebuild_m i \<longrightarrow> ipamSlots i = {}))"

text \<open>
  Nobody holds on to the exclusive lock, except a prebuild that returned without giving it
  back, which had reserved nothing but the first subnet.
\<close>

definition lock_inv :: "InstanceGroup \<Rightarrow> Inventory \<Rightarrow> bool" where
  "lock_inv g i = (lock_writer i \<longrightarrow> ipamSlots i \<subseteq> {slot_key g 0})"

section \<open>Properties\<close>

subsection \<open>The allocation loop and the critical sections\<close>

lemma walk_subnets_Inr:
  "walk_subnets g slots b = Inr s \<Longrightarrow>
     b \<le> s \<and> s < 251 \<and> 4 dvd (s - b) \<and> slot_key g s \<notin> slots \<and>
     (\<forall>b'. b \<le> b' \<and> b' < s \<and> 4 dvd (b' - b) \<longrightarrow> slot_key g b' \<in> slots)"
proof (induction g slots b rule: walk_subnets.induct)
  case (1 g slots subnetBase)
  show ?case
  proof (cases "subnetBase \<ge> 255 - stepSize")
    case True
    with "1.prems" show ?thesis by (simp add: walk_subnets.simps)
  next
    case small: False
    show ?thesis
    proof (cases "slot_key g subnetBase \<notin> slots")
      case True
      with small "1.prems" show ?thesis
        by (auto simp: walk_subnets.simps stepSize_def)
    next
      case False
      with small "1.prems" have rec: "walk_subnets g slots (subnetBase + 4) = Inr s"
        by (simp add: walk_subnets.simps)
      from "1.IH"[OF small _ rec] False
      have ih: "subnetBase + 4 \<le> s" "s < 251" "4 dvd (s - (subnetBase + 4))" "slot_key g s \<notin> slots"
        "\<And>b'. subnetBase + 4 \<le> b' \<Longrightarrow> b' < s \<Longrightarrow> 4 dvd (b' - (subnetBase + 4)) \<Longrightarrow> slot_key g b' \<in> slots"
        by auto
      have "slot_key g b' \<in> slots" if "subnetBase \<le> b'" "b' < s" "4 dvd (b' - subnetBase)" for b'
      proof (cases "b' = subnetBase")
        case True with False show ?thesis by simp
      next
        case ne: False
        with that have "subnetBase + 4 \<le> b'" "4 dvd (b' - (subnetBase + 4))" by presburger+
        with that ih(5) show ?thesis by blast
      qed
      moreover from ih(3) have "4 dvd (s - subnetBase)" by presburger
      ultimately show ?thesis using ih by auto
    qed
  qed
qed

lemma walk_subnets_Inl:
  "walk_subnets g slots b = Inl e \<Longrightarrow>
     e = ErrAddressSpaceExhausted \<and>
     (\<forall>b'. b \<le> b' \<and> b' < 251 \<and> 4 dvd (b' - b) \<longrightarrow> slot_key g b' \<in> slots)"
proof (induction g slots b rule: walk_subnets.induct)
  case (1 g slots subnetBase)
  show ?case
  proof (cases "subnetBase \<ge> 255 - stepSize")
    case True
    with "1.prems" show ?thesis by (auto simp: walk_subnets.simps stepSize_def)
  next
    case small: False
    show ?thesis
    proof (cases "slot_key g subnetBase \<notin> slots")
      case True
      with small "1.prems" show ?thesis
        by (auto simp: walk_subnets.simps stepSize_def)
    next
      case False
      with small "1.prems" have rec: "walk_subnets g slots (subnetBase + 4) = Inl e"
        by (simp add: walk_subnets.simps)
      from "1.IH"[OF small _ rec] False
      have ih: "e = ErrAddressSpaceExhausted"
        "\<And>b'. subnetBase + 4 \<le> b' \<Longrightarrow> b' < 251 \<Longrightarrow> 4 dvd (b' - (subnetBase + 4)) \<Longrightarrow> slot_key g b' \<in> slots"
        by auto
      have "slot_key g b' \<in> slots" if "subnetBase \<le> b'" "b' < 251" "4 dvd (b' - subnetBase)" for b'
      proof (cases "b' = subnetBase")
        case True with False show ?thesis by simp
      next
        case ne: False
        with that have "subnetBase + 4 \<le> b'" "4 dvd (b' - (subnetBase + 4))" by presburger+
        with that ih(2) show ?thesis by blast
      qed
      then show ?thesis using ih(1) by auto
    qed
  qed
qed

lemma boot_critical_Inr:
  "boot_critical g env i = (i', Inr instanceName) \<Longrightarrow>
     \<exists>s pubKey privKey rb. walk_subnets g (ipamSlots i) 0 = Inr s \<and>
         \<not> shuttingDown i \<and>
         GenerateKey env = Inr (pubKey, privKey) \<and> rand_Read env = Inr rb \<and>
         instanceName = instanceName_of s \<and>
         i' = Unlock (i\<lparr>ipamSlots := insert (slot_key g s) (ipamSlots i),
                 instances := (instances i)(instanceName_of s \<mapsto>
                     \<lparr> Name = instanceName_of s,
                       InstanceContextCancelFunc = s,
                       HostTapIP = MakeAddress g (s + 1),
                       InstanceTapIP = MakeAddress g (s + 2),
                       InstanceTapMacAddress = instanceMac_of rb,
                       SSHPublicKey = Some pubKey,
                       SSHPrivateKey = Some privKey \<rparr>)\<rparr>)"
  by (auto simp: boot_critical_def Let_def instanceName_of_def split: if_splits sum.splits prod.splits)

lemma boot_critical_Inl:
  "boot_critical g env i = (i', Inl e) \<Longrightarrow>
     (i' = Unlock i \<and> (e = ErrShuttingDown \<or> e = ErrAddressSpaceExhausted)) \<or>
     (\<exists>s msg. walk_subnets g (ipamSlots i) 0 = Inr s \<and> \<not> shuttingDown i \<and> e = ErrExternal msg \<and>
        i' = Unlock (i\<lparr>ipamSlots := insert (slot_key g s) (ipamSlots i)\<rparr>))"
  by (auto simp: boot_critical_def Let_def split: if_splits sum.splits prod.splits dest: walk_subnets_Inl)

lemma prebuild_critical_Inr:
  "prebuild_critical g env i = (i', Inr s) \<Longrightarrow>
     \<exists>rb. walk_subnets g (ipamSlots i) 0 = Inr s \<and>
         \<not> shuttingDown i \<and> pb_rand_Read env = Inr rb \<and>
         i' = Unlock (i\<lparr>ipamSlots := insert (slot_key g s) (ipamSlots i),
                 instances := (instances i)(instanceName_of s \<mapsto>
                     \<lparr> Name = instanceName_of s,
                       InstanceContextCancelFunc = s,
                       HostTapIP = MakeAddress g (s + 1),
                       InstanceTapIP = MakeAddress g (s + 2),
                       InstanceTapMacAddress = instanceMac_of rb,
                       SSHPublicKey = None,
                       SSHPrivateKey = None \<rparr>)\<rparr>)"
  by (auto simp: prebuild_critical_def Let_def instanceName_of_def split: if_splits sum.splits prod.splits)

lemma prebuild_critical_Inl:
  "prebuild_critical g env i = (i', Inl e) \<Longrightarrow>
     (i' = Unlock i \<and> (e = ErrShuttingDown \<or> e = ErrAddressSpaceExhausted)) \<or>
     (\<exists>s msg. walk_subnets g (ipamSlots i) 0 = Inr s \<and> \<not> shuttingDown i \<and> e = ErrExternal msg \<and>
        (i' = Unlock (i\<lparr>ipamSlots := insert (slot_key g s) (ipamSlots i)\<rparr>) \<or>
         i' = i\<lparr>ipamSlots := insert (slot_key g s) (ipamSlots i)\<rparr>))"
  by (auto simp: prebuild_critical_def Let_def split: if_splits sum.splits prod.splits dest: walk_subnets_Inl)

subsection \<open>Lowest free base wins\<close>

text \<open>
  Claim C6. The allocation loop, started at base 0, walks the bases 0, 4, 8, ... upwards
  and stops at the first whose key \<open>MakeAddress(subnetBase) + "/30"\<close> is not in the set:
  the result \<open>s\<close> is a multiple of 4 up to 248, its key is free and the key of every
  lower base is taken. The loop fails, with \<open>ErrAddressSpaceExhausted\<close>, only when the keys
  of all the bases 0, 4, ..., 248 are taken. \<open>BootInstance\<close>, when not shutting down,
  inserts the key of exactly that base, or returns the loop's error. In the run on
  subnet \<open>10.0.0.\<close> that boots three instances (slots 0, 4 and 8), destroys the one that
  holds slot 4 and boots once more, the new instance holds slot 4 again; slot 12 stays
  free.
\<close>

theorem lowest_free_base_wins:
  "(walk_subnets g slots 0 = Inr s \<longrightarrow>
      0 \<le> s \<and> s \<le> 248 \<and> 4 dvd s \<and> slot_key g s \<notin> slots \<and>
      (\<forall>b. 0 \<le> b \<and> b < s \<and> 4 dvd b \<longrightarrow> slot_key g b \<in> slots)) \<and>
   (walk_subnets g slots 0 = Inl e \<longrightarrow>
      e = ErrAddressSpaceExhausted \<and>
      (\<forall>b. 0 \<le> b \<and> b \<le> 248 \<and> 4 dvd b \<longrightarrow> slot_key g b \<in> slots)) \<and>
   (\<not> shuttingDown i \<longrightarrow>
      (case walk_subnets g (ipamSlots i) 0 of
         Inr s \<Rightarrow> ipamSlots (fst (boot_critical g env i)) = insert (slot_key g s) (ipamSlots i)
       | Inl e \<Rightarrow> boot_critical g env i = (Unlock i, Inl ErrAddressSpaceExhausted))) \<and>
   (let booted = run example_group
          [Boot prebuild_ok boot_ok, Boot prebuild_ok boot_ok, Boot prebuild_ok boot_ok] NewInventory;
        destroyed = run example_group [Destroy destroy_ok ''fleetingd1''] booted;
        again = run example_group [Boot prebuild_ok boot_ok] destroyed
    in ipamSlots booted = {''10.0.0.0/30'', ''10.0.0.4/30'', ''10.0.0.8/30''} \<and>
       map_option InstanceContextCancelFunc (instances booted ''fleetingd1'') = Some 4 \<and>
       ipamSlots destroyed = {''10.0.0.0/30'', ''10.0.0.8/30''} \<and>
       instances destroyed ''fleetingd1'' = None \<and>
       ipamSlots again = {''10.0.0.0/30'', ''10.0.0.4/30'', ''10.0.0.8/30''} \<and>
       map_option InstanceContextCancelFunc (instances again ''fleetingd1'') = Some 4 \<and>
       ''10.0.0.12/30'' \<notin> ipamSlots again \<and>
       instances again ''fleetingd3'' = None)"
proof (intro conjI impI)
  assume a: "walk_subnets g slots 0 = Inr s"
  from walk_subnets_Inr[OF a] have f: "0 \<le> s" "s < 251" "4 dvd s" "slot_key g s \<notin> slots"
    "\<forall>b. 0 \<le> b \<and> b < s \<and> 4 dvd b \<longrightarrow> slot_key g b \<in> slots"
    by simp_all
  from f(2,3) have "s \<le> 248" by presburger
  with f show "0 \<le> s" "s \<le> 248" "4 dvd s" "slot_key g s \<notin> slots"
    "\<forall>b. 0 \<le> b \<and> b < s \<and> 4 dvd b \<longrightarrow> slot_key g b \<in> slots"
    by blast+
next
  assume a: "walk_subnets g slots 0 = Inl e"
  from walk_subnets_Inl[OF a] show "e = ErrAddressSpaceExhausted"
    "\<forall>b. 0 \<le> b \<and> b \<le> 248 \<and> 4 dvd b \<longrightarrow> slot_key g b \<in> slots"
    by auto
next
  assume "\<not> shuttingDown i"
  then show "case walk_subnets g (ipamSlots i) 0 of
         Inr s \<Rightarrow> ipamSlots (fst (boot_critical g env i)) = insert (slot_key g s) (ipamSlots i)
       | Inl e \<Rightarrow> boot_critical g env i = (Unlock i, Inl ErrAddressSpaceExhausted)"
    by (auto simp: boot_critical_def Let_def Unlock_def split: sum.splits prod.splits dest: walk_subnets_Inl)
next
  show "let booted = run example_group
          [Boot prebuild_ok boot_ok, Boot prebuild_ok boot_ok, Boot prebuild_ok boot_ok] NewInventory;
        destroyed = run example_group [Destroy destroy_ok ''fleetingd1''] booted;
        again = run example_group [Boot prebuild_ok boot_ok] destroyed
    in ipamSlots booted = {''10.0.0.0/30'', ''10.0.0.4/30'', ''10.0.0.8/30''} \<and>
       map_option InstanceContextCancelFunc (instances booted ''fleetingd1'') = Some 4 \<and>
       ipamSlots destroyed = {''10.0.0.0/30'', ''10.0.0.8/30''} \<and>
       instances destroyed ''fleetingd1'' = None \<and>
       ipamSlots again = {''10.0.0.0/30'', ''10.0.0.4/30'', ''10.0.0.8/30''} \<and>
       map_option InstanceContextCancelFunc (instances again ''fleetingd1'') = Some 4 \<and>
       ''10.0.0.12/30'' \<notin> ipamSlots again \<and>
       instances again ''fleetingd3'' = None"
    by code_simp
qed

theorem lowest_free_base_wins_witness:
  "walk_subnets example_group {''10.0.0.0/30'', ''10.0.0.8/30''} 0 = Inr 4 \<and>
   slot_key example_group 4 \<notin> {''10.0.0.0/30'', ''10.0.0.8/30''} \<and>
   slot_key example_group 0 \<in> {''10.0.0.0/30'', ''10.0.0.8/30''} \<and>
   ipamSlots (fst (boot_critical example_group boot_ok
       (NewInventory\<lparr>lock_writer := True, ipamSlots := {''10.0.0.0/30'', ''10.0.0.8/30''}\<rparr>))) =
     insert (slot_key example_group 4) {''10.0.0.0/30'', ''10.0.0.8/30''} \<and>
   walk_subnets example_group (all_slots example_group) 0 = Inl ErrAddressSpaceExhausted \<and>
   slot_key example_group 248 \<in> all_slots example_group"
proof -
  let ?i = "NewInventory\<lparr>lock_writer := True, ipamSlots := {''10.0.0.0/30'', ''10.0.0.8/30''}\<rparr>"
  have a: "walk_subnets example_group {''10.0.0.0/30'', ''10.0.0.8/30''} 0 = Inr 4" by code_simp
  have b: "walk_subnets example_group (all_slots example_group) 0 = Inl ErrAddressSpaceExhausted"
    by code_simp
  have c: "\<not> shuttingDown ?i" by (simp add: NewInventory_def)
  have d: "ipamSlots ?i = {''10.0.0.0/30'', ''10.0.0.8/30''}" by simp
  from lowest_free_base_wins[of example_group "{''10.0.0.0/30'', ''10.0.0.8/30''}" 4
      ErrAddressSpaceExhausted ?i boot_ok] a c d
  have 1: "slot_key example_group 4 \<notin> {''10.0.0.0/30'', ''10.0.0.8/30''}"
    and 2: "slot_key example_group 0 \<in> {''10.0.0.0/30'', ''10.0.0.8/30''}"
    and 3: "ipamSlots (fst (boot_critical example_group boot_ok ?i)) =
       insert (slot_key example_group 4) {''10.0.0.0/30'', ''10.0.0.8/30''}"
    by simp_all
  from lowest_free_base_wins[of example_group "all_slots example_group" 0
      ErrAddressSpaceExhausted ?i boot_ok] b
  have 4: "slot_key example_group 248 \<in> all_slots example_group" by simp
  from a b 1 2 3 4 show ?thesis by blast
qed

subsection \<open>The TAP-wait loop\<close>


lemma tap_wait_None_iff:
  "c \<le> 101 \<Longrightarrow> tap_wait ifs name c = None \<longleftrightarrow>
     (\<exists>k. c \<le> k \<and> k \<le> 101 \<and> (\<exists>l. ifs k = Inr l \<and> (name \<in> set l \<or> k = 101)) \<and>
          (\<forall>j. c \<le> j \<and> j < k \<longrightarrow> (\<exists>l. ifs j = Inr l \<and> name \<notin> set l)))"
proof (induction ifs name c rule: tap_wait.induct)
  case (1 ifs name c)
  show ?case
  proof (cases "ifs c")
    case (Inl msg)
    then have "tap_wait ifs name c \<noteq> None" by (simp add: tap_wait.simps)
    moreover have "\<not> (\<exists>k. c \<le> k \<and> k \<le> 101 \<and> (\<exists>l. ifs k = Inr l \<and> (name \<in> set l \<or> k = 101)) \<and>
          (\<forall>j. c \<le> j \<and> j < k \<longrightarrow> (\<exists>l. ifs j = Inr l \<and> name \<notin> set l)))"
    proof
      assume "\<exists>k. c \<le> k \<and> k \<le> 101 \<and> (\<exists>l. ifs k = Inr l \<and> (name \<in> set l \<or> k = 101)) \<and>
          (\<forall>j. c \<le> j \<and> j < k \<longrightarrow> (\<exists>l. ifs j = Inr l \<and> name \<notin> set l))"
      then obtain k where k: "c \<le> k" "\<exists>l. ifs k = Inr l" "\<forall>j. c \<le> j \<and> j < k \<longrightarrow> (\<exists>l. ifs j = Inr l \<and> name \<notin> set l)"
        by blast
      show False
      proof (cases "k = c")
        case True with k(2) Inl show False by simp
      next
        case False with k(1) have "c < k" by simp
        with k(3) Inl show False by auto
      qed
    qed
    ultimately show ?thesis by blast
  next
    case (Inr l)
    show ?thesis
    proof (cases "name \<in> set l \<or> c > 100")
      case True
      with Inr have "tap_wait ifs name c = None" by (simp add: tap_wait.simps)
      moreover from True "1.prems" have "name \<in> set l \<or> c = 101" by auto
      with Inr "1.prems" have "\<exists>k. c \<le> k \<and> k \<le> 101 \<and> (\<exists>l. ifs k = Inr l \<and> (name \<in> set l \<or> k = 101)) \<and>
          (\<forall>j. c \<le> j \<and> j < k \<longrightarrow> (\<exists>l. ifs j = Inr l \<and> name \<notin> set l))"
        by (intro exI[of _ c]) auto
      ultimately show ?thesis by blast
    next
      case False
      then have nin: "name \<notin> set l" and c100: "c \<le> 100" by auto
      with Inr have step: "tap_wait ifs name c = tap_wait ifs name (c + 1)"
        by (subst tap_wait.simps) simp
      from c100 have c1: "c + 1 \<le> 101" by simp
      have ih: "tap_wait ifs name (c + 1) = None \<longleftrightarrow>
         (\<exists>k. c + 1 \<le> k \<and> k \<le> 101 \<and> (\<exists>l. ifs k = Inr l \<and> (name \<in> set l \<or> k = 101)) \<and>
          (\<forall>j. c + 1 \<le> j \<and> j < k \<longrightarrow> (\<exists>l. ifs j = Inr l \<and> name \<notin> set l)))"
        using "1.IH"[OF Inr refl _ c1] False by simp
      have "(\<exists>k. c + 1 \<le> k \<and> k \<le> 101 \<and> (\<exists>l. ifs k = Inr l \<and> (name \<in> set l \<or> k = 101)) \<and>
          (\<forall>j. c + 1 \<le> j \<and> j < k \<longrightarrow> (\<exists>l. ifs j = Inr l \<and> name \<notin> set l))) \<longleftrightarrow>
         (\<exists>k. c \<le> k \<and> k \<le> 101 \<and> (\<exists>l. ifs k = Inr l \<and> (name \<in> set l \<or> k = 101)) \<and>
          (\<forall>j. c \<le> j \<and> j < k \<longrightarrow> (\<exists>l. ifs j = Inr l \<and> name \<notin> set l)))" (is "?L \<longleftrightarrow> ?R")
      proof
        assume ?L
        then obtain k where k: "c + 1 \<le> k" "k \<le> 101" "\<exists>l. ifs k = Inr l \<and> (name \<in> set l \<or> k = 101)"
          "\<forall>j. c + 1 \<le> j \<and> j < k \<longrightarrow> (\<exists>l. ifs j = Inr l \<and> name \<notin> set l)" by blast
        have "\<exists>l. ifs j = Inr l \<and> name \<notin> set l" if "c \<le> j" "j < k" for j
        proof (cases "j = c")
          case True with Inr nin show ?thesis by simp
        next
          case False with that k(4) show ?thesis by simp
        qed
        with k show ?R by (intro exI[of _ k]) auto
      next
        assume ?R
        then obtain k where k: "c \<le> k" "k \<le> 101" "\<exists>l. ifs k = Inr l \<and> (name \<in> set l \<or> k = 101)"
          "\<forall>j. c \<le> j \<and> j < k \<longrightarrow> (\<exists>l. ifs j = Inr l \<and> name \<notin> set l)" by blast
        have "k \<noteq> c" using k(3) Inr nin c100 by auto
        with k(1) have "c + 1 \<le> k" by simp
        with k show ?L by (intro exI[of _ k]) auto
      qed
      with step ih show ?thesis by simp
    qed
  qed
qed

lemma tap_wait_Some_iff:
  "c \<le> 101 \<Longrightarrow> tap_wait ifs name c = Some err \<longleftrightarrow>
     (\<exists>k msg. c \<le> k \<and> k \<le> 101 \<and> ifs k = Inl msg \<and> err = ErrExternal msg \<and>
          (\<forall>j. c \<le> j \<and> j < k \<longrightarrow> (\<exists>l. ifs j = Inr l \<and> name \<notin> set l)))"
proof (induction ifs name c rule: tap_wait.induct)
  case (1 ifs name c)
  show ?case
  proof (cases "ifs c")
    case (Inl msg)
    then have "tap_wait ifs name c = Some (ErrExternal msg)" by (simp add: tap_wait.simps)
    moreover have "(\<exists>k msg. c \<le> k \<and> k \<le> 101 \<and> ifs k = Inl msg \<and> err = ErrExternal msg \<and>
          (\<forall>j. c \<le> j \<and> j < k \<longrightarrow> (\<exists>l. ifs j = Inr l \<and> name \<notin> set l))) \<longleftrightarrow> err = ErrExternal msg"
      (is "?L \<longleftrightarrow> ?R")
    proof
      assume ?L
      then obtain k m where k: "c \<le> k" "ifs k = Inl m" "err = ErrExternal m"
        "\<forall>j. c \<le> j \<and> j < k \<longrightarrow> (\<exists>l. ifs j = Inr l \<and> name \<notin> set l)" by blast
      have "k = c"
      proof (rule ccontr)
        assume "k \<noteq> c" with k(1) have "c < k" by simp
        with k(4) Inl show False by auto
      qed
      with k Inl show ?R by simp
    next
      assume ?R
      with Inl "1.prems" show ?L by (intro exI[of _ c] exI[of _ msg]) auto
    qed
    ultimately show ?thesis by auto
  next
    case (Inr l)
    show ?thesis
    proof (cases "name \<in> set l \<or> c > 100")
      case True
      with Inr have "tap_wait ifs name c = None" by (simp add: tap_wait.simps)
      moreover have "\<not> (\<exists>k msg. c \<le> k \<and> k \<le> 101 \<and> ifs k = Inl msg \<and> err = ErrExternal msg \<and>
          (\<forall>j. c \<le> j \<and> j < k \<longrightarrow> (\<exists>l. ifs j = Inr l \<and> name \<notin> set l)))"
      proof
        assume "\<exists>k msg. c \<le> k \<and> k \<le> 101 \<and> ifs k = Inl msg \<and> err = ErrExternal msg \<and>
          (\<forall>j. c \<le> j \<and> j < k \<longrightarrow> (\<exists>l. ifs j = Inr l \<and> name \<notin> set l))"
        then obtain k m where k: "c \<le> k" "k \<le> 101" "ifs k = Inl m"
          "\<forall>j. c \<le> j \<and> j < k \<longrightarrow> (\<exists>l. ifs j = Inr l \<and> name \<notin> set l)" by blast
        from k(3) Inr have "k \<noteq> c" by auto
        with k(1) have ck: "c < k" by simp
        with k(4) Inr have "name \<notin> set l" by auto
        with True have "c > 100" by simp
        with ck k(2) show False by simp
      qed
      ultimately show ?thesis by simp
    next
      case False
      then have nin: "name \<notin> set l" and c100: "c \<le> 100" by auto
      with Inr have step: "tap_wait ifs name c = tap_wait ifs name (c + 1)"
        by (subst tap_wait.simps) simp
      from c100 have c1: "c + 1 \<le> 101" by simp
      have ih: "tap_wait ifs name (c + 1) = Some err \<longleftrightarrow>
         (\<exists>k msg. c + 1 \<le> k \<and> k \<le> 101 \<and> ifs k = Inl msg \<and> err = ErrExternal msg \<and>
          (\<forall>j. c + 1 \<le> j \<and> j < k \<longrightarrow> (\<exists>l. ifs j = Inr l \<and> name \<notin> set l)))"
        using "1.IH"[OF Inr refl _ c1] False by simp
      have "(\<exists>k msg. c + 1 \<le> k \<and> k \<le> 101 \<and> ifs k = Inl msg \<and> err = ErrExternal msg \<and>
          (\<forall>j. c + 1 \<le> j \<and> j < k \<longrightarrow> (\<exists>l. ifs j = Inr l \<and> name \<notin> set l))) \<longleftrightarrow>
         (\<exists>k msg. c \<le> k \<and> k \<le> 101 \<and> ifs k = Inl msg \<and> err = ErrExternal msg \<and>
          (\<forall>j. c \<le> j \<and> j < k \<longrightarrow> (\<exists>l. ifs j = Inr l \<and> name \<notin> set l)))" (is "?L \<longleftrightarrow> ?R")
      proof
        assume ?L
        then obtain k m where k: "c + 1 \<le> k" "k \<le> 101" "ifs k = Inl m" "err = ErrExternal m"
          "\<forall>j. c + 1 \<le> j \<and> j < k \<longrightarrow> (\<exists>l. ifs j = Inr l \<and> name \<notin> set l)" by blast
        have "\<exists>l. ifs j = Inr l \<and> name \<notin> set l" if "c \<le> j" "j < k" for j
        proof (cases "j = c")
          case True with Inr nin show ?thesis by simp
        next
          case False with that k(5) show ?thesis by simp
        qed
        with k show ?R by (intro exI[of _ k] exI[of _ m]) auto
      next
        assume ?R
        then obtain k m where k: "c \<le> k" "k \<le> 101" "ifs k = Inl m" "err = ErrExternal m"
          "\<forall>j. c \<le> j \<and> j < k \<longrightarrow> (\<exists>l. ifs j = Inr l \<and> name \<notin> set l)" by blast
        have "k \<noteq> c" using k(3) Inr by auto
        with k(1) have "c + 1 \<le> k" by simp
        with k show ?L by (intro exI[of _ k] exI[of _ m]) auto
      qed
      with step ih show ?thesis by simp
    qed
  qed
qed

subsection \<open>The lock\<close>

lemma RLock_RUnlock: "\<not> lock_writer i \<Longrightarrow> map_option RUnlock (RLock i) = Some i"
  by (simp add: RLock_def RUnlock_def)

lemma lock_free_Lock: "lock_free i \<Longrightarrow> Lock i = Some (i\<lparr>lock_writer := True\<rparr>)"
  by (simp add: Lock_def lock_free_def)

lemma RLock_cases:
  "RLock i = (if lock_writer i then None else Some (i\<lparr>lock_readers := Suc (lock_readers i)\<rparr>))"
  by (simp add: RLock_def)

lemma RUnlock_RLock_upd [simp]: "RUnlock (i\<lparr>lock_readers := Suc (lock_readers i)\<rparr>) = i"
  by (simp add: RUnlock_def)

subsection \<open>What the TAP-wait loop returns\<close>

text \<open>
  Claim C8, as the code has it. The loop calls \<open>net.Interfaces()\<close> at most 102 times
  (\<open>checkCounter\<close> from 0 to 101). It ends without an error, and \<open>BootInstance\<close> goes on
  to \<open>ApplyNftables\<close>, exactly when some call up to the last one lists the TAP device, or
  the call with \<open>checkCounter = 101\<close> is reached, and no call before that failed. It ends
  with an error exactly when a call of \<open>net.Interfaces()\<close> fails before the device has
  been seen and before the budget has run out: \<open>BootInstance\<close> then returns that error
  from inside the loop, and \<open>ApplyNftables\<close> is not called.
\<close>

theorem tap_wait_proceeds_or_fails:
  "(tap_wait ifs name 0 = None \<longleftrightarrow>
      (\<exists>k\<le>101. (\<exists>l. ifs k = Inr l \<and> (name \<in> set l \<or> k = 101)) \<and>
                (\<forall>j<k. \<exists>l. ifs j = Inr l \<and> name \<notin> set l))) \<and>
   (tap_wait ifs name 0 = Some err \<longleftrightarrow>
      (\<exists>k\<le>101. \<exists>msg. ifs k = Inl msg \<and> err = ErrExternal msg \<and>
                (\<forall>j<k. \<exists>l. ifs j = Inr l \<and> name \<notin> set l))) \<and>
   (lock_free i \<and> card (ipamSlots i) < MaxIPAMSlots \<and>
    boot_critical g env (i\<lparr>lock_writer := True\<rparr>) = (i4, Inr instanceName) \<longrightarrow>
      boot_worker g env i =
        (case tap_wait (net_Interfaces env) instanceName 0 of
           Some err \<Rightarrow> Returns i4 (Some err)
         | None \<Rightarrow> ApplyNftables g (boot_nft env) i4))"
proof (intro conjI impI)
  show "tap_wait ifs name 0 = None \<longleftrightarrow>
      (\<exists>k\<le>101. (\<exists>l. ifs k = Inr l \<and> (name \<in> set l \<or> k = 101)) \<and>
                (\<forall>j<k. \<exists>l. ifs j = Inr l \<and> name \<notin> set l))"
    using tap_wait_None_iff[of 0 ifs name] by simp
next
  show "tap_wait ifs name 0 = Some err \<longleftrightarrow>
      (\<exists>k\<le>101. \<exists>msg. ifs k = Inl msg \<and> err = ErrExternal msg \<and>
                (\<forall>j<k. \<exists>l. ifs j = Inr l \<and> name \<notin> set l))"
    using tap_wait_Some_iff[of 0 ifs name err] by auto
next
  assume a: "lock_free i \<and> card (ipamSlots i) < MaxIPAMSlots \<and>
    boot_critical g env (i\<lparr>lock_writer := True\<rparr>) = (i4, Inr instanceName)"
  then have "\<not> lock_writer i" by (simp add: lock_free_def)
  with a show "boot_worker g env i =
        (case tap_wait (net_Interfaces env) instanceName 0 of
           Some err \<Rightarrow> Returns i4 (Some err)
         | None \<Rightarrow> ApplyNftables g (boot_nft env) i4)"
    by (simp add: boot_worker_def RLock_cases lock_free_Lock Let_def)
qed

theorem tap_wait_proceeds_or_fails_witness:
  "tap_wait (net_Interfaces boot_ok) ''fleetingd0'' 0 = None \<and>
   boot_worker example_group boot_ok (NewInventory\<lparr>prebuild_done := True\<rparr>) =
     ApplyNftables example_group (boot_nft boot_ok)
       (fst (boot_critical example_group boot_ok (NewInventory\<lparr>prebuild_done := True, lock_writer := True\<rparr>)))"
proof -
  let ?i = "NewInventory\<lparr>prebuild_done := True\<rparr>"
  let ?c = "boot_critical example_group boot_ok (?i\<lparr>lock_writer := True\<rparr>)"
  have none: "tap_wait (net_Interfaces boot_ok) ''fleetingd0'' 0 = None" by code_simp
  have "snd ?c = Inr ''fleetingd0''" by code_simp
  then have c: "?c = (fst ?c, Inr ''fleetingd0'')" by (metis prod.collapse)
  have h: "lock_free ?i \<and> card (ipamSlots ?i) < MaxIPAMSlots"
    by (simp add: lock_free_def NewInventory_def MaxIPAMSlots_def)
  from tap_wait_proceeds_or_fails[of "net_Interfaces boot_ok" "''fleetingd0''" ErrShuttingDown
      ?i example_group boot_ok "fst ?c" "''fleetingd0''"] h c none
  show ?thesis by simp
qed

text \<open>
  The claim as stated fails where listing the interfaces fails: the first boot returns
  the error of \<open>net.Interfaces()\<close>; had it gone on to the packet filter, it would have
  returned the error of \<open>nft\<close>.
\<close>

theorem tap_wait_error_counterexample:
  "tap_wait (net_Interfaces boot_interfaces_fail) ''fleetingd0'' 0 =
     Some (ErrExternal ''route ip+net: netlinkrib: too many open files'') \<and>
   returned (BootInstance example_group prebuild_ok boot_interfaces_fail NewInventory) =
     Some (Some (ErrExternal ''route ip+net: netlinkrib: too many open files'')) \<and>
   returned (ApplyNftables example_group (boot_nft boot_interfaces_fail)
       (inventory_of (BootInstance example_group prebuild_ok boot_interfaces_fail NewInventory))) =
     Some (Some (ErrExternal ''exit status 1''))"
  by code_simp

subsection \<open>Destroying a name that is not there\<close>

text \<open>
  Claim C9. For a name that is not a key of the instance map, \<open>DestroyInstance\<close> does not
  return at all, so it returns no not-found error: with the lock free it takes the
  exclusive lock and panics on the nil entry, the lock still held (with the lock taken it
  waits for the lock forever). \<open>Decrease\<close>, which hands each name it is given to
  \<open>DestroyInstance\<close>, panics in the same way on such a name.
\<close>

theorem DestroyInstance_absent_name_panics:
  "instances i name = None \<Longrightarrow>
     DestroyInstance g env name i = (if lock_free i then Panics (i\<lparr>lock_writer := True\<rparr>) else Blocks i) \<and>
     Decrease g ((name, env) # rest) i = (if lock_free i then Panics (i\<lparr>lock_writer := True\<rparr>) else Blocks i) \<and>
     returned (DestroyInstance g env name i) = None"
  by (simp add: DestroyInstance_def Decrease_def Lock_def lock_free_def returned_def)

theorem DestroyInstance_absent_name_panics_witness:
  "instances NewInventory ''fleetingd7'' = None \<and>
   DestroyInstance example_group destroy_ok ''fleetingd7'' NewInventory = Panics (NewInventory\<lparr>lock_writer := True\<rparr>) \<and>
   Decrease example_group [(''fleetingd7'', destroy_ok)] NewInventory = Panics (NewInventory\<lparr>lock_writer := True\<rparr>)"
proof -
  have a: "instances NewInventory ''fleetingd7'' = None" by (simp add: NewInventory_def)
  have b: "lock_free NewInventory" by (simp add: NewInventory_def lock_free_def)
  from DestroyInstance_absent_name_panics[OF a, of example_group destroy_ok "[]"] a b
  show ?thesis by simp
qed

subsection \<open>Name and addresses of an instance\<close>

text \<open>
  Claim C4, as the code has it. An instance that \<open>BootInstance\<close> or \<open>PrebuildInstance\<close>
  creates from slot \<open>s\<close> (the base found by the allocation loop, whose key is reserved) is
  registered under the name \<open>"fleetingd"\<close> followed by the decimal \<open>s / 4\<close>, which is
  also its \<open>Name\<close>; its host-TAP address is the configured prefix followed by \<open>s + 1\<close> and
  its guest-TAP address the prefix followed by \<open>s + 2\<close>.
\<close>

theorem instance_identity_of_slot:
  "(boot_critical g env i = (i', Inr instanceName) \<longrightarrow>
      (\<exists>s inst. walk_subnets g (ipamSlots i) 0 = Inr s \<and>
         VMSubnet g @ Itoa s @ ''/30'' \<in> ipamSlots i' \<and>
         instanceName = ''fleetingd'' @ Itoa (s div 4) \<and>
         instances i' instanceName = Some inst \<and> Name inst = instanceName \<and>
         HostTapIP inst = VMSubnet g @ Itoa (s + 1) \<and>
         InstanceTapIP inst = VMSubnet g @ Itoa (s + 2))) \<and>
   (prebuild_critical g penv i = (i'', Inr s') \<longrightarrow>
      (\<exists>inst. walk_subnets g (ipamSlots i) 0 = Inr s' \<and>
         VMSubnet g @ Itoa s' @ ''/30'' \<in> ipamSlots i'' \<and>
         instances i'' (''fleetingd'' @ Itoa (s' div 4)) = Some inst \<and>
         Name inst = ''fleetingd'' @ Itoa (s' div 4) \<and>
         HostTapIP inst = VMSubnet g @ Itoa (s' + 1) \<and>
         InstanceTapIP inst = VMSubnet g @ Itoa (s' + 2)))"
proof (intro conjI impI)
  assume "boot_critical g env i = (i', Inr instanceName)"
  from boot_critical_Inr[OF this]
  show "\<exists>s inst. walk_subnets g (ipamSlots i) 0 = Inr s \<and>
         VMSubnet g @ Itoa s @ ''/30'' \<in> ipamSlots i' \<and>
         instanceName = ''fleetingd'' @ Itoa (s div 4) \<and>
         instances i' instanceName = Some inst \<and> Name inst = instanceName \<and>
         HostTapIP inst = VMSubnet g @ Itoa (s + 1) \<and>
         InstanceTapIP inst = VMSubnet g @ Itoa (s + 2)"
    by (auto simp: Unlock_def slot_key_def MakeAddress_def instanceName_of_def stepSize_def)
next
  assume "prebuild_critical g penv i = (i'', Inr s')"
  from prebuild_critical_Inr[OF this]
  show "\<exists>inst. walk_subnets g (ipamSlots i) 0 = Inr s' \<and>
         VMSubnet g @ Itoa s' @ ''/30'' \<in> ipamSlots i'' \<and>
         instances i'' (''fleetingd'' @ Itoa (s' div 4)) = Some inst \<and>
         Name inst = ''fleetingd'' @ Itoa (s' div 4) \<and>
         HostTapIP inst = VMSubnet g @ Itoa (s' + 1) \<and>
         InstanceTapIP inst = VMSubnet g @ Itoa (s' + 2)"
    by (auto simp: Unlock_def slot_key_def MakeAddress_def instanceName_of_def stepSize_def)
qed

theorem instance_identity_of_slot_witness:
  "(\<exists>inst. instances (fst (boot_critical example_group boot_ok (NewInventory\<lparr>lock_writer := True\<rparr>)))
        ''fleetingd0'' = Some inst \<and>
      Name inst = ''fleetingd0'' \<and> HostTapIP inst = ''10.0.0.1'' \<and> InstanceTapIP inst = ''10.0.0.2'') \<and>
   (\<exists>inst. instances (fst (prebuild_critical example_group prebuild_ok (NewInventory\<lparr>lock_writer := True\<rparr>)))
        ''fleetingd0'' = Some inst \<and>
      Name inst = ''fleetingd0'' \<and> HostTapIP inst = ''10.0.0.1'' \<and> InstanceTapIP inst = ''10.0.0.2'')"
proof -
  let ?i = "NewInventory\<lparr>lock_writer := True\<rparr>"
  let ?b = "boot_critical example_group boot_ok ?i"
  let ?p = "prebuild_critical example_group prebuild_ok ?i"
  have w: "walk_subnets example_group (ipamSlots ?i) 0 = Inr 0" by code_simp
  have "snd ?b = Inr ''fleetingd0''" by code_simp
  then have b: "?b = (fst ?b, Inr ''fleetingd0'')" by (metis prod.collapse)
  have "snd ?p = Inr 0" by code_simp
  then have p: "?p = (fst ?p, Inr 0)" by (metis prod.collapse)
  have v1: "VMSubnet example_group @ Itoa (0 + 1) = ''10.0.0.1''" by code_simp
  have v2: "VMSubnet example_group @ Itoa (0 + 2) = ''10.0.0.2''" by code_simp
  have v3: "''fleetingd'' @ Itoa (0 div 4) = ''fleetingd0''" by code_simp
  note T = instance_identity_of_slot[of example_group boot_ok ?i "fst ?b" "''fleetingd0''"
      prebuild_ok "fst ?p" 0]
  from T b obtain s inst where
    s: "walk_subnets example_group (ipamSlots ?i) 0 = Inr s"
      "instances (fst ?b) ''fleetingd0'' = Some inst" "Name inst = ''fleetingd0''"
      "HostTapIP inst = VMSubnet example_group @ Itoa (s + 1)"
      "InstanceTapIP inst = VMSubnet example_group @ Itoa (s + 2)"
    by blast
  from s(1) w have "s = 0" by (simp only: sum.inject)
  with s v1 v2 have first: "\<exists>inst. instances (fst ?b) ''fleetingd0'' = Some inst \<and>
      Name inst = ''fleetingd0'' \<and> HostTapIP inst = ''10.0.0.1'' \<and> InstanceTapIP inst = ''10.0.0.2''"
    by (simp only: ex_simps simp_thms option.inject)
  from T p obtain inst' where
    t: "instances (fst ?p) (''fleetingd'' @ Itoa (0 div 4)) = Some inst'"
      "Name inst' = ''fleetingd'' @ Itoa (0 div 4)"
      "HostTapIP inst' = VMSubnet example_group @ Itoa (0 + 1)"
      "InstanceTapIP inst' = VMSubnet example_group @ Itoa (0 + 2)"
    by blast
  then have second: "\<exists>inst. instances (fst ?p) ''fleetingd0'' = Some inst \<and>
      Name inst = ''fleetingd0'' \<and> HostTapIP inst = ''10.0.0.1'' \<and> InstanceTapIP inst = ''10.0.0.2''"
    by (simp only: v1 v2 v3 ex_simps simp_thms option.inject)
  from first second show ?thesis by (rule conjI)
qed

text \<open>
  The name is not \<open>"pool"\<close> followed by \<open>s / 4\<close>: the first boot on subnet \<open>10.0.0.\<close>
  reserves slot 0 and registers \<open>fleetingd0\<close>; no instance is called \<open>pool0\<close>.
\<close>

theorem instance_name_pool_counterexample:
  "ipamSlots (inventory_of (BootInstance example_group prebuild_ok boot_ok NewInventory)) = {''10.0.0.0/30''} \<and>
   map_option Name (instances (inventory_of (BootInstance example_group prebuild_ok boot_ok NewInventory))
        ''fleetingd0'') = Some ''fleetingd0'' \<and>
   instances (inventory_of (BootInstance example_group prebuild_ok boot_ok NewInventory))
        (''pool'' @ Itoa (0 div 4)) = None \<and>
   ''fleetingd0'' \<noteq> ''pool'' @ Itoa (0 div 4)"
  by code_simp

subsection \<open>What the operations do to the inventory\<close>

lemma unlocked_writer [simp]: "\<not> lock_writer i \<Longrightarrow> i\<lparr>lock_writer := False\<rparr> = i"
  by (cases i) simp

lemma ApplyNftables_eq:
  "ApplyNftables g env i =
     (case ParseFS env of
        Some err \<Rightarrow> Returns i (Some (ErrExternal err))
      | None \<Rightarrow>
          if lock_writer i then Blocks i
          else (case os_Create env of
             Some err \<Rightarrow> Returns i (Some (ErrExternal err))
           | None \<Rightarrow>
          (case ExecuteTemplate env of
             Some err \<Rightarrow> Returns i (Some (ErrExternal err))
           | None \<Rightarrow>
          (case nft_Run env of
             Some err \<Rightarrow> Returns i (Some (ErrExternal err))
           | None \<Rightarrow> Returns i None))))"
  by (simp add: ApplyNftables_def RLock_cases Let_def split: option.splits)

lemma ApplyNftables_cases:
  "ApplyNftables g env i = Blocks i \<or> (\<exists>r. ApplyNftables g env i = Returns i r)"
  by (simp add: ApplyNftables_eq split: option.splits)

lemma ApplyNftables_unlocked:
  "\<not> lock_writer i \<Longrightarrow> \<exists>r. ApplyNftables g env i = Returns i r"
  by (simp add: ApplyNftables_eq split: option.splits)

lemma reaper_eq: "reaper g env s i = (if lock_free i then reaped g s i else i)"
proof (cases "lock_free i")
  case True
  then have w: "\<not> lock_writer i" and r: "lock_readers i = 0" by (simp_all add: lock_free_def)
  let ?i4 = "reaped g s i"
  have l: "Lock i = Some (i\<lparr>lock_writer := True\<rparr>)" using True by (rule lock_free_Lock)
  have u: "Unlock (i\<lparr>lock_writer := True, ipamSlots := ipamSlots i - {slot_key g s},
       instances := (instances i)(instanceName_of s := None)\<rparr>) = ?i4"
    using w by (cases i) (simp add: Unlock_def reaped_def)
  have "\<not> lock_writer ?i4" using w by (simp add: reaped_def)
  from ApplyNftables_unlocked[OF this, of g env] obtain r where
    a: "ApplyNftables g env ?i4 = Returns ?i4 r" by blast
  have "reaper g env s i = ?i4"
    unfolding reaper_def l by (simp add: Let_def u a)
  with True show ?thesis by simp
next
  case False
  then have "Lock i = None" by (auto simp: Lock_def lock_free_def)
  with False show ?thesis by (simp add: reaper_def)
qed

lemma boot_critical_unlocked:
  "boot_critical g env i = (i', r) \<Longrightarrow> \<not> lock_writer i' \<and> lock_readers i' = lock_readers i"
  by (auto simp: boot_critical_def Let_def Unlock_def split: if_splits sum.splits prod.splits)

lemma boot_worker_eq:
  "boot_worker g env i =
     (if lock_writer i then Blocks i
      else if card (ipamSlots i) \<ge> MaxIPAMSlots then Returns i (Some ErrAddressSpaceExhausted)
      else if 0 < lock_readers i then Blocks i
      else (case boot_critical g env (i\<lparr>lock_writer := True\<rparr>) of
             (i4, Inl err) \<Rightarrow> Returns i4 (Some err)
           | (i4, Inr instanceName) \<Rightarrow>
          (case tap_wait (net_Interfaces env) instanceName 0 of
             Some err \<Rightarrow> Returns i4 (Some err)
           | None \<Rightarrow> ApplyNftables g (boot_nft env) i4)))"
  by (simp add: boot_worker_def RLock_cases Lock_def Let_def)

lemma PrebuildInstance_eq:
  "PrebuildInstance g env i =
     (if lock_writer i then Blocks i
      else if card (ipamSlots i) \<ge> MaxIPAMSlots then Returns i (Some ErrAddressSpaceExhausted)
      else if 0 < lock_readers i then Blocks i
      else (case prebuild_critical g env (i\<lparr>lock_writer := True\<rparr>) of
             (i4, Inl err) \<Rightarrow> Returns i4 (Some err)
           | (i4, Inr subnetBase) \<Rightarrow>
          (case tap_wait (pb_net_Interfaces env) (instanceName_of subnetBase) 0 of
             Some err \<Rightarrow> Returns i4 (Some err)
           | None \<Rightarrow>
          (case ApplyNftables g (pb_nft env) i4 of
             Panics i5 \<Rightarrow> Panics i5
           | Blocks i5 \<Rightarrow> Blocks i5
           | Returns i5 (Some err) \<Rightarrow> Returns i5 (Some err)
           | Returns i5 None \<Rightarrow>
               if pb_child_exits env \<and> Lock i5 \<noteq> None
               then Returns (reaper g (pb_reaper_nft env) subnetBase i5) None
               else Blocks i5))))"
  by (simp add: PrebuildInstance_def RLock_cases Lock_def Let_def)

lemma boot_worker_outcome:
  "(\<not> lock_free i \<and>
      (boot_worker g env i = Blocks i \<or> boot_worker g env i = Returns i (Some ErrAddressSpaceExhausted))) \<or>
   (lock_free i \<and>
      (boot_worker g env i = Returns i (Some ErrAddressSpaceExhausted) \<or>
       (shuttingDown i \<and> boot_worker g env i = Returns i (Some ErrShuttingDown)) \<or>
       (\<not> shuttingDown i \<and> (\<exists>s. walk_subnets g (ipamSlots i) 0 = Inr s \<and>
          ((\<exists>msg. boot_worker g env i =
              Returns (i\<lparr>ipamSlots := insert (slot_key g s) (ipamSlots i)\<rparr>) (Some (ErrExternal msg))) \<or>
           (\<exists>inst r. boot_worker g env i =
              Returns (i\<lparr>ipamSlots := insert (slot_key g s) (ipamSlots i),
                        instances := (instances i)(instanceName_of s \<mapsto> inst)\<rparr>) r))))))"
proof (cases "lock_free i")
  case False
  then show ?thesis by (auto simp: boot_worker_eq lock_free_def)
next
  case True
  then have w: "\<not> lock_writer i" and r: "lock_readers i = 0" by (simp_all add: lock_free_def)
  show ?thesis
  proof (cases "card (ipamSlots i) \<ge> MaxIPAMSlots")
    case True
    with w \<open>lock_free i\<close> show ?thesis by (simp add: boot_worker_eq)
  next
    case small: False
    let ?j = "i\<lparr>lock_writer := True\<rparr>"
    obtain i4 res where c: "boot_critical g env ?j = (i4, res)" by (cases "boot_critical g env ?j")
    have bw: "boot_worker g env i =
        (case res of Inl err \<Rightarrow> Returns i4 (Some err)
         | Inr instanceName \<Rightarrow>
            (case tap_wait (net_Interfaces env) instanceName 0 of
               Some err \<Rightarrow> Returns i4 (Some err)
             | None \<Rightarrow> ApplyNftables g (boot_nft env) i4))"
      using w r small by (simp add: boot_worker_eq c)
    show ?thesis
    proof (cases res)
      case (Inl e)
      with c have ci: "boot_critical g env ?j = (i4, Inl e)" by simp
      from bw Inl have out: "boot_worker g env i = Returns i4 (Some e)" by simp
      from boot_critical_Inl[OF ci] show ?thesis
      proof
        assume a: "i4 = Unlock ?j \<and> (e = ErrShuttingDown \<or> e = ErrAddressSpaceExhausted)"
        have "Unlock ?j = i" using w by (simp add: Unlock_def)
        with a have i4: "i4 = i" by simp
        have "e = ErrShuttingDown \<Longrightarrow> shuttingDown i"
          using ci by (auto simp: boot_critical_def Let_def split: if_splits sum.splits prod.splits
              dest: walk_subnets_Inl)
        with a i4 out \<open>lock_free i\<close> show ?thesis by auto
      next
        assume "\<exists>s msg. walk_subnets g (ipamSlots ?j) 0 = Inr s \<and> \<not> shuttingDown ?j \<and>
           e = ErrExternal msg \<and> i4 = Unlock (?j\<lparr>ipamSlots := insert (slot_key g s) (ipamSlots ?j)\<rparr>)"
        then obtain s msg where s: "walk_subnets g (ipamSlots i) 0 = Inr s" "\<not> shuttingDown i"
          "e = ErrExternal msg" "i4 = Unlock (?j\<lparr>ipamSlots := insert (slot_key g s) (ipamSlots ?j)\<rparr>)"
          by auto
        have "i4 = i\<lparr>ipamSlots := insert (slot_key g s) (ipamSlots i)\<rparr>"
          using s(4) w by (cases i) (simp add: Unlock_def)
        with out s \<open>lock_free i\<close> show ?thesis by auto
      qed
    next
      case (Inr instanceName)
      with c have ci: "boot_critical g env ?j = (i4, Inr instanceName)" by simp
      from boot_critical_Inr[OF ci] obtain s inst where
        s: "walk_subnets g (ipamSlots i) 0 = Inr s" "\<not> shuttingDown i"
          "i4 = Unlock (?j\<lparr>ipamSlots := insert (slot_key g s) (ipamSlots ?j),
                 instances := (instances ?j)(instanceName_of s \<mapsto> inst)\<rparr>)"
        by auto
      have i4: "i4 = i\<lparr>ipamSlots := insert (slot_key g s) (ipamSlots i),
                 instances := (instances i)(instanceName_of s \<mapsto> inst)\<rparr>"
        using s(3) w by (cases i) (simp add: Unlock_def)
      then have "\<not> lock_writer i4" using w by simp
      from ApplyNftables_unlocked[OF this] obtain r' where
        "ApplyNftables g (boot_nft env) i4 = Returns i4 r'" by blast
      with bw Inr have "\<exists>r. boot_worker g env i = Returns i4 r"
        by (simp split: option.splits)
      with i4 s \<open>lock_free i\<close> show ?thesis by auto
    qed
  qed
qed

lemma PrebuildInstance_outcome:
  "(\<not> lock_free i \<and>
      (PrebuildInstance g env i = Blocks i \<or> PrebuildInstance g env i = Returns i (Some ErrAddressSpaceExhausted))) \<or>
   (lock_free i \<and>
      (PrebuildInstance g env i = Returns i (Some ErrAddressSpaceExhausted) \<or>
       (shuttingDown i \<and> PrebuildInstance g env i = Returns i (Some ErrShuttingDown)) \<or>
       (\<not> shuttingDown i \<and> (\<exists>s. walk_subnets g (ipamSlots i) 0 = Inr s \<and>
          ((\<exists>msg. PrebuildInstance g env i =
              Returns (i\<lparr>ipamSlots := insert (slot_key g s) (ipamSlots i)\<rparr>) (Some (ErrExternal msg))) \<or>
           (\<exists>msg. getFilenameFromURL_diskImageURL env = Inl msg \<and> PrebuildInstance g env i =
              Returns (i\<lparr>lock_writer := True, ipamSlots := insert (slot_key g s) (ipamSlots i)\<rparr>)
                (Some (ErrExternal msg))) \<or>
           (\<exists>inst msg. PrebuildInstance g env i =
              Returns (i\<lparr>ipamSlots := insert (slot_key g s) (ipamSlots i),
                        instances := (instances i)(instanceName_of s \<mapsto> inst)\<rparr>) (Some (ErrExternal msg))) \<or>
           (\<exists>inst. \<not> pb_child_exits env \<and> PrebuildInstance g env i =
              Blocks (i\<lparr>ipamSlots := insert (slot_key g s) (ipamSlots i),
                       instances := (instances i)(instanceName_of s \<mapsto> inst)\<rparr>)) \<or>
           (PrebuildInstance g env i =
              Returns (i\<lparr>instances := (instances i)(instanceName_of s := None)\<rparr>) None))))))"
proof (cases "lock_free i")
  case False
  then show ?thesis by (auto simp: PrebuildInstance_eq lock_free_def)
next
  case True
  then have w: "\<not> lock_writer i" and r: "lock_readers i = 0" by (simp_all add: lock_free_def)
  show ?thesis
  proof (cases "card (ipamSlots i) \<ge> MaxIPAMSlots")
    case True
    with w \<open>lock_free i\<close> show ?thesis by (simp add: PrebuildInstance_eq)
  next
    case small: False
    let ?j = "i\<lparr>lock_writer := True\<rparr>"
    obtain i4 res where c: "prebuild_critical g env ?j = (i4, res)" by (cases "prebuild_critical g env ?j")
    have bw: "PrebuildInstance g env i =
        (case res of Inl err \<Rightarrow> Returns i4 (Some err)
         | Inr subnetBase \<Rightarrow>
          (case tap_wait (pb_net_Interfaces env) (instanceName_of subnetBase) 0 of
             Some err \<Rightarrow> Returns i4 (Some err)
           | None \<Rightarrow>
          (case ApplyNftables g (pb_nft env) i4 of
             Panics i5 \<Rightarrow> Panics i5
           | Blocks i5 \<Rightarrow> Blocks i5
           | Returns i5 (Some err) \<Rightarrow> Returns i5 (Some err)
           | Returns i5 None \<Rightarrow>
               if pb_child_exits env \<and> Lock i5 \<noteq> None
               then Returns (reaper g (pb_reaper_nft env) subnetBase i5) None
               else Blocks i5)))"
      using w r small by (simp add: PrebuildInstance_eq c)
    show ?thesis
    proof (cases res)
      case (Inl e)
      with c have ci: "prebuild_critical g env ?j = (i4, Inl e)" by simp
      from bw Inl have out: "PrebuildInstance g env i = Returns i4 (Some e)" by simp
      from prebuild_critical_Inl[OF ci] show ?thesis
      proof
        assume a: "i4 = Unlock ?j \<and> (e = ErrShuttingDown \<or> e = ErrAddressSpaceExhausted)"
        have "Unlock ?j = i" using w by (simp add: Unlock_def)
        with a have i4: "i4 = i" by simp
        have "e = ErrShuttingDown \<Longrightarrow> shuttingDown i"
          using ci by (auto simp: prebuild_critical_def Let_def split: if_splits sum.splits prod.splits
              dest: walk_subnets_Inl)
        with a i4 out \<open>lock_free i\<close> show ?thesis by auto
      next
        assume "\<exists>s msg. walk_subnets g (ipamSlots ?j) 0 = Inr s \<and> \<not> shuttingDown ?j \<and>
           e = ErrExternal msg \<and>
           (i4 = Unlock (?j\<lparr>ipamSlots := insert (slot_key g s) (ipamSlots ?j)\<rparr>) \<or>
            i4 = ?j\<lparr>ipamSlots := insert (slot_key g s) (ipamSlots ?j)\<rparr>)"
        then obtain s msg where s: "walk_subnets g (ipamSlots i) 0 = Inr s" "\<not> shuttingDown i"
          "e = ErrExternal msg"
          "i4 = Unlock (?j\<lparr>ipamSlots := insert (slot_key g s) (ipamSlots ?j)\<rparr>) \<or>
           i4 = ?j\<lparr>ipamSlots := insert (slot_key g s) (ipamSlots ?j)\<rparr>"
          by auto
        from s(4) show ?thesis
        proof
          assume "i4 = Unlock (?j\<lparr>ipamSlots := insert (slot_key g s) (ipamSlots ?j)\<rparr>)"
          then have "i4 = i\<lparr>ipamSlots := insert (slot_key g s) (ipamSlots i)\<rparr>"
            using w by (cases i) (simp add: Unlock_def)
          with out s \<open>lock_free i\<close> show ?thesis by auto
        next
          assume held: "i4 = ?j\<lparr>ipamSlots := insert (slot_key g s) (ipamSlots ?j)\<rparr>"
          then have lw: "lock_writer i4" by simp
          have "getFilenameFromURL_diskImageURL env = Inl msg"
            using ci lw s(3)
            by (auto simp: prebuild_critical_def Let_def Unlock_def split: if_splits sum.splits prod.splits)
          moreover from held have "i4 = i\<lparr>lock_writer := True, ipamSlots := insert (slot_key g s) (ipamSlots i)\<rparr>"
            by simp
          ultimately show ?thesis using out s \<open>lock_free i\<close> by auto
        qed
      qed
    next
      case (Inr s)
      with c have ci: "prebuild_critical g env ?j = (i4, Inr s)" by simp
      from prebuild_critical_Inr[OF ci] obtain inst where
        s: "walk_subnets g (ipamSlots i) 0 = Inr s" "\<not> shuttingDown i"
          "i4 = Unlock (?j\<lparr>ipamSlots := insert (slot_key g s) (ipamSlots ?j),
                 instances := (instances ?j)(instanceName_of s \<mapsto> inst)\<rparr>)"
        by auto
      have i4: "i4 = i\<lparr>ipamSlots := insert (slot_key g s) (ipamSlots i),
                 instances := (instances i)(instanceName_of s \<mapsto> inst)\<rparr>"
        using s(3) w by (cases i) (simp add: Unlock_def)
      then have nw: "\<not> lock_writer i4" and lf: "lock_free i4" using w r by (simp_all add: lock_free_def)
      from ApplyNftables_unlocked[OF nw] obtain r' where
        nft: "ApplyNftables g (pb_nft env) i4 = Returns i4 r'" by blast
      from walk_subnets_Inr[OF s(1)] have free: "slot_key g s \<notin> ipamSlots i" by simp
      have reap: "reaper g (pb_reaper_nft env) s i4 = i\<lparr>instances := (instances i)(instanceName_of s := None)\<rparr>"
        using lf free by (cases i) (simp add: reaper_eq reaped_def i4)
      have lk: "Lock i4 \<noteq> None" using lf by (simp add: lock_free_Lock)
      show ?thesis
      proof (cases "tap_wait (pb_net_Interfaces env) (instanceName_of s) 0")
        case (Some e)
        then obtain msg where "e = ErrExternal msg"
          using tap_wait_Some_iff[of 0 "pb_net_Interfaces env" "instanceName_of s" e] by auto
        with Some bw Inr have "PrebuildInstance g env i = Returns i4 (Some (ErrExternal msg))" by simp
        with i4 s \<open>lock_free i\<close> show ?thesis by auto
      next
        case None
        show ?thesis
        proof (cases r')
          case (Some e)
          then obtain msg where "e = ErrExternal msg"
            using nft by (auto simp: ApplyNftables_eq split: option.splits if_splits)
          with Some None bw Inr nft have "PrebuildInstance g env i = Returns i4 (Some (ErrExternal msg))"
            by simp
          with i4 s \<open>lock_free i\<close> show ?thesis by auto
        next
          case nfine: None
          show ?thesis
          proof (cases "pb_child_exits env")
            case True
            with None nfine bw Inr nft lk reap
            have "PrebuildInstance g env i = Returns (i\<lparr>instances := (instances i)(instanceName_of s := None)\<rparr>) None"
              by simp
            with s \<open>lock_free i\<close> show ?thesis by auto
          next
            case False
            with None nfine bw Inr nft have "PrebuildInstance g env i = Blocks i4" by simp
            with i4 s False \<open>lock_free i\<close> show ?thesis by auto
          qed
        qed
      qed
    qed
  qed
qed

lemma removes_refl [simp]: "removes i i"
  by (simp add: removes_def)

lemma removes_trans: "removes i j \<Longrightarrow> removes j k \<Longrightarrow> removes i k"
proof -
  assume a: "removes i j" and b: "removes j k"
  have "instances k name = None \<or> instances k name = instances i name" for name
    using a b unfolding removes_def by metis
  moreover have "ipamSlots k \<subseteq> ipamSlots i"
    using a b unfolding removes_def by blast
  moreover have "shuttingDown k = shuttingDown i" "prebuild_done i \<longrightarrow> prebuild_done k"
    "prebuild_m i \<and> \<not> prebuild_done k \<longrightarrow> prebuild_m k"
    using a b unfolding removes_def by auto
  ultimately show ?thesis unfolding removes_def by blast
qed

lemma removes_reaped [simp]: "removes i (reaped g s i)"
  by (auto simp: removes_def reaped_def)

lemma removes_lock_writer [simp]: "removes i (i\<lparr>lock_writer := b\<rparr>)"
  by (simp add: removes_def)

lemma removes_lock_readers [simp]: "removes i (i\<lparr>lock_readers := n\<rparr>)"
  by (simp add: removes_def)

lemma reaped_idem [simp]: "reaped g s (reaped g s i) = reaped g s i"
  by (cases i) (simp add: reaped_def)

lemma lock_reaped [simp]:
  "lock_writer (reaped g s i) = lock_writer i" "lock_readers (reaped g s i) = lock_readers i"
  "lock_free (reaped g s i) = lock_free i"
  by (simp_all add: reaped_def lock_free_def)

lemma destroy_wait_outcome:
  "(destroy_wait g env name s c i = Blocks i \<and> lock_writer i) \<or>
   (\<exists>r. destroy_wait g env name s c i = Returns i r) \<or>
   (lock_free i \<and> (\<exists>r. destroy_wait g env name s c i = Returns (reaped g s i) r))"
proof (induction g env name s c i rule: destroy_wait.induct)
  case (1 g env name s c i)
  let ?i0 = "if child_exit env = Some c then reaper g (reaper_nft env) s i else i"
  have i0: "?i0 = i \<or> (lock_free i \<and> ?i0 = reaped g s i)"
    by (simp add: reaper_eq)
  have lw: "lock_writer ?i0 = lock_writer i" "lock_free ?i0 = lock_free i"
    using i0 by auto
  show ?case
  proof (cases "lock_writer i")
    case True
    then have "\<not> lock_free i" by (simp add: lock_free_def)
    with i0 have e: "?i0 = i" by blast
    have "destroy_wait g env name s c i = Blocks i"
      by (subst destroy_wait.simps) (simp only: e Let_def, simp add: RLock_cases True)
    with True show ?thesis by simp
  next
    case False
    with lw have nw: "\<not> lock_writer ?i0" by simp
    have unf: "destroy_wait g env name s c i =
       (if \<not> (instances ?i0 name \<noteq> None) then Returns ?i0 None
        else if c + 1 > 100 then Returns ?i0 (Some (ErrDestroyTimeout name))
        else destroy_wait g env name s (c + 1) ?i0)"
      by (subst destroy_wait.simps) (simp add: RLock_cases nw Let_def)
    show ?thesis
    proof (cases "\<not> (instances ?i0 name \<noteq> None) \<or> c + 1 > 100")
      case True
      then have "\<exists>r. destroy_wait g env name s c i = Returns ?i0 r"
        using unf by auto
      with i0 show ?thesis by auto
    next
      case False
      then have rec: "destroy_wait g env name s c i = destroy_wait g env name s (c + 1) ?i0"
        using unf by auto
      have rl: "RLock ?i0 = Some (?i0\<lparr>lock_readers := Suc (lock_readers ?i0)\<rparr>)"
        using nw by (simp add: RLock_cases)
      have ih: "(destroy_wait g env name s (c + 1) ?i0 = Blocks ?i0 \<and> lock_writer ?i0) \<or>
         (\<exists>r. destroy_wait g env name s (c + 1) ?i0 = Returns ?i0 r) \<or>
         (lock_free ?i0 \<and> (\<exists>r. destroy_wait g env name s (c + 1) ?i0 = Returns (reaped g s ?i0) r))"
        using "1.IH"[OF refl rl refl refl] False by (simp)
      from i0 show ?thesis
      proof
        assume e: "?i0 = i"
        with ih rec nw show ?thesis by auto
      next
        assume e: "lock_free i \<and> ?i0 = reaped g s i"
        with ih rec nw show ?thesis by auto
      qed
    qed
  qed
qed

lemma DestroyInstance_outcome:
  "(\<not> lock_free i \<and> DestroyInstance g env name i = Blocks i) \<or>
   (lock_free i \<and> instances i name = None \<and> DestroyInstance g env name i = Panics (i\<lparr>lock_writer := True\<rparr>)) \<or>
   (lock_free i \<and> instances i name \<noteq> None \<and>
      ((\<exists>r. DestroyInstance g env name i = Returns i r) \<or>
       (\<exists>r inst. instances i name = Some inst \<and>
          DestroyInstance g env name i = Returns (reaped g (InstanceContextCancelFunc inst) i) r)))"
proof (cases "lock_free i")
  case False
  then have "Lock i = None" by (auto simp: Lock_def lock_free_def)
  with False show ?thesis by (simp add: DestroyInstance_def)
next
  case True
  then have w: "\<not> lock_writer i" by (simp add: lock_free_def)
  have l: "Lock i = Some (i\<lparr>lock_writer := True\<rparr>)" using True by (rule lock_free_Lock)
  have u: "Unlock (i\<lparr>lock_writer := True\<rparr>) = i" using w by (simp add: Unlock_def)
  show ?thesis
  proof (cases "instances i name")
    case None
    with True l show ?thesis by (simp add: DestroyInstance_def)
  next
    case (Some inst)
    then have d: "DestroyInstance g env name i =
        destroy_wait g env name (InstanceContextCancelFunc inst) 0 i"
      by (simp add: DestroyInstance_def l u Let_def)
    from destroy_wait_outcome[of g env name "InstanceContextCancelFunc inst" 0 i] True w Some d
    show ?thesis by auto
  qed
qed

lemma DestroyInstance_removes: "removes i (inventory_of (DestroyInstance g env name i))"
  using DestroyInstance_outcome[of i g env name] by (auto simp: inventory_of_def)

lemma DestroyInstance_lock:
  "DestroyInstance g env name i = Returns i' r \<Longrightarrow> lock_free i \<and> lock_free i'"
  using DestroyInstance_outcome[of i g env name] by auto

lemma destroy_each_removes: "removes i (inventory_of (destroy_each g envs names i))"
proof (induction names arbitrary: i)
  case Nil
  show ?case by (simp add: inventory_of_def)
next
  case (Cons n names)
  let ?d = "DestroyInstance g (envs n) n i"
  have r: "removes i (inventory_of ?d)" by (rule DestroyInstance_removes)
  show ?case
  proof (cases ?d)
    case (Returns i1 e)
    show ?thesis
    proof (cases e)
      case None
      with Returns have "destroy_each g envs (n # names) i = destroy_each g envs names i1" by simp
      moreover from r Returns have "removes i i1" by (simp add: inventory_of_def)
      ultimately show ?thesis using Cons.IH[of i1] removes_trans by metis
    next
      case (Some err)
      with Returns r show ?thesis by (simp add: inventory_of_def)
    qed
  next
    case (Panics i1)
    with r show ?thesis by (simp add: inventory_of_def)
  next
    case (Blocks i1)
    with r show ?thesis by (simp add: inventory_of_def)
  qed
qed

lemma destroy_each_lock:
  "destroy_each g envs names i = Returns i' r \<Longrightarrow> lock_free i \<Longrightarrow> lock_free i'"
proof (induction names arbitrary: i)
  case Nil
  then show ?case by simp
next
  case (Cons n names)
  show ?case
  proof (cases "DestroyInstance g (envs n) n i")
    case (Returns i1 e)
    then have l1: "lock_free i1" using DestroyInstance_lock by blast
    show ?thesis
    proof (cases e)
      case None
      with Returns Cons.prems have "destroy_each g envs names i1 = Returns i' r" by simp
      from Cons.IH[OF this l1] show ?thesis .
    next
      case (Some err)
      with Returns Cons.prems l1 show ?thesis by simp
    qed
  next
    case (Panics i1)
    with Cons.prems show ?thesis by simp
  next
    case (Blocks i1)
    with Cons.prems show ?thesis by simp
  qed
qed

lemma BootInstance_done: "prebuild_done i \<Longrightarrow> BootInstance g penv env i = boot_worker g env i"
  by (simp add: BootInstance_def prebuild_Do_def)

lemma BootInstance_busy:
  "\<not> prebuild_done i \<Longrightarrow> prebuild_m i \<Longrightarrow> BootInstance g penv env i = Blocks i"
  by (simp add: BootInstance_def prebuild_Do_def)

lemma BootInstance_first:
  "\<not> prebuild_done i \<Longrightarrow> \<not> prebuild_m i \<Longrightarrow>
   BootInstance g penv env i =
     (case RunPrebuild g penv (i\<lparr>prebuild_m := True\<rparr>) of
        Returns i1 (Some err) \<Rightarrow> Returns (i1\<lparr>prebuild_done := True, prebuild_m := False\<rparr>) (Some err)
      | Returns i1 None \<Rightarrow> boot_worker g env (i1\<lparr>prebuild_done := True, prebuild_m := False\<rparr>)
      | Panics i1 \<Rightarrow> Panics (i1\<lparr>prebuild_done := True, prebuild_m := False\<rparr>)
      | Blocks i1 \<Rightarrow> Blocks i1)"
  by (simp add: BootInstance_def prebuild_Do_def split: outcome.splits option.splits)

lemma RunPrebuild_eq:
  "RunPrebuild g env i =
     (case prepareWorkdir env of
        Some err \<Rightarrow> Returns i (Some (ErrExternal err))
      | None \<Rightarrow>
     (case ensureImages env of
        Some err \<Rightarrow> Returns i (Some (ErrExternal err))
      | None \<Rightarrow> PrebuildInstance g env i))"
  by (simp add: RunPrebuild_def)

text \<open>Shutting down: \<open>BootInstance\<close> returns an error or blocks, and inserts nothing.\<close>

lemma boot_worker_shuttingDown:
  "shuttingDown i \<Longrightarrow>
     (\<not> lock_free i \<and> boot_worker g env i = Blocks i) \<or>
     boot_worker g env i = Returns i (Some ErrAddressSpaceExhausted) \<or>
     (lock_free i \<and> boot_worker g env i = Returns i (Some ErrShuttingDown))"
  using boot_worker_outcome[of i g env] by auto

lemma PrebuildInstance_shuttingDown:
  "shuttingDown i \<Longrightarrow>
     (\<not> lock_free i \<and> PrebuildInstance g env i = Blocks i) \<or>
     PrebuildInstance g env i = Returns i (Some ErrAddressSpaceExhausted) \<or>
     (lock_free i \<and> PrebuildInstance g env i = Returns i (Some ErrShuttingDown))"
  using PrebuildInstance_outcome[of i g env] by auto

lemma BootInstance_shuttingDown:
  assumes sd: "shuttingDown i"
  shows "(BootInstance g penv env i = Blocks i \<and> (\<not> lock_free i \<or> (\<not> prebuild_done i \<and> prebuild_m i))) \<or>
     (\<not> lock_free i \<and> \<not> prebuild_done i \<and> BootInstance g penv env i = Blocks (i\<lparr>prebuild_m := True\<rparr>)) \<or>
     (\<exists>e. BootInstance g penv env i = Returns (i\<lparr>prebuild_done := True\<rparr>) (Some e) \<and>
        (e = ErrShuttingDown \<or> e = ErrAddressSpaceExhausted \<or>
         (\<not> prebuild_done i \<and> (\<exists>msg. e = ErrExternal msg \<and>
            (prepareWorkdir penv = Some msg \<or> prepareWorkdir penv = None \<and> ensureImages penv = Some msg)))))"
proof (cases "prebuild_done i")
  case True
  then have "i\<lparr>prebuild_done := True\<rparr> = i" by (cases i) simp
  with True boot_worker_shuttingDown[OF sd, of g env] show ?thesis
    by (auto simp: BootInstance_done)
next
  case nd: False
  show ?thesis
  proof (cases "prebuild_m i")
    case True
    with nd show ?thesis by (simp add: BootInstance_busy)
  next
    case nm: False
    let ?j = "i\<lparr>prebuild_m := True\<rparr>"
    have fin: "?j\<lparr>prebuild_done := True, prebuild_m := False\<rparr> = i\<lparr>prebuild_done := True\<rparr>"
      using nm by (cases i) simp
    have sj: "shuttingDown ?j" using sd by simp
    have lj: "lock_free ?j = lock_free i" by (simp add: lock_free_def)
    note B = BootInstance_first[OF nd nm, of g penv env]
    show ?thesis
    proof (cases "prepareWorkdir penv")
      case (Some msg)
      then have "RunPrebuild g penv ?j = Returns ?j (Some (ErrExternal msg))"
        by (simp add: RunPrebuild_eq)
      with B fin have "BootInstance g penv env i = Returns (i\<lparr>prebuild_done := True\<rparr>) (Some (ErrExternal msg))"
        by simp
      with nd Some show ?thesis by auto
    next
      case pw: None
      show ?thesis
      proof (cases "ensureImages penv")
        case (Some msg)
        with pw have "RunPrebuild g penv ?j = Returns ?j (Some (ErrExternal msg))"
          by (simp add: RunPrebuild_eq)
        with B fin have "BootInstance g penv env i = Returns (i\<lparr>prebuild_done := True\<rparr>) (Some (ErrExternal msg))"
          by simp
        with nd pw Some show ?thesis by auto
      next
        case None
        with pw have rp: "RunPrebuild g penv ?j = PrebuildInstance g penv ?j"
          by (simp add: RunPrebuild_eq)
        from PrebuildInstance_shuttingDown[OF sj, of g penv] show ?thesis
        proof (elim disjE conjE)
          assume "\<not> lock_free ?j" "PrebuildInstance g penv ?j = Blocks ?j"
          with B rp lj nd show ?thesis by simp
        next
          assume "PrebuildInstance g penv ?j = Returns ?j (Some ErrAddressSpaceExhausted)"
          with B rp fin show ?thesis by simp
        next
          assume "lock_free ?j" "PrebuildInstance g penv ?j = Returns ?j (Some ErrShuttingDown)"
          with B rp fin show ?thesis by simp
        qed
      qed
    qed
  qed
qed

lemma BootInstance_shuttingDown_removes:
  "shuttingDown i \<Longrightarrow> removes i (inventory_of (BootInstance g penv env i))"
  using BootInstance_shuttingDown[of i g penv env]
  by (auto simp: inventory_of_def removes_def)

lemma ApplyNftables_inventory [simp]: "inventory_of (ApplyNftables g env i) = i"
  using ApplyNftables_cases[of g env i] by (auto simp: inventory_of_def)

lemma GetAllInstances_removes: "removes i (inventory_of (GetAllInstances order i))"
  by (simp add: GetAllInstances_def RLock_cases inventory_of_def Let_def)

lemma GetConnectInfo_removes: "removes i (inventory_of (GetConnectInfo marshal name i))"
  by (simp add: GetConnectInfo_def RLock_cases inventory_of_def Let_def RUnlock_def removes_def
      split: option.splits marshalled.splits)

lemma DestroyAllInstances_removes:
  "removes (if lock_free i then i\<lparr>shuttingDown := True\<rparr> else i)
     (inventory_of (DestroyAllInstances g order envs i))"
proof (cases "lock_free i")
  case False
  then have "Lock i = None" by (auto simp: Lock_def lock_free_def)
  with False show ?thesis by (simp add: DestroyAllInstances_def inventory_of_def)
next
  case True
  let ?i1 = "i\<lparr>lock_writer := True\<rparr>"
  have l: "Lock i = Some ?i1" using True by (rule lock_free_Lock)
  let ?i3 = "Unlock (?i1\<lparr>shuttingDown := True\<rparr>)"
  have "removes (i\<lparr>shuttingDown := True\<rparr>) ?i3" by (simp add: Unlock_def removes_def)
  moreover have "removes ?i3 (inventory_of (destroy_each g envs (range_keys (instances (?i1\<lparr>shuttingDown := True\<rparr>)) order) ?i3))"
    by (rule destroy_each_removes)
  ultimately have "removes (i\<lparr>shuttingDown := True\<rparr>)
      (inventory_of (destroy_each g envs (range_keys (instances (?i1\<lparr>shuttingDown := True\<rparr>)) order) ?i3))"
    by (rule removes_trans)
  with True l show ?thesis by (simp add: DestroyAllInstances_def Let_def)
qed

lemma DestroyAllInstances_shuttingDown:
  "DestroyAllInstances g order envs i = Returns i' r \<Longrightarrow> shuttingDown i' \<and> lock_free i \<and> lock_free i'"
proof -
  assume a: "DestroyAllInstances g order envs i = Returns i' r"
  then obtain i1 where l: "Lock i = Some i1" by (cases "Lock i") (auto simp: DestroyAllInstances_def)
  then have lf: "lock_free i" and i1: "i1 = i\<lparr>lock_writer := True\<rparr>"
    by (auto simp: Lock_def lock_free_def split: if_splits)
  let ?i3 = "Unlock (i1\<lparr>shuttingDown := True\<rparr>)"
  have lf3: "lock_free ?i3" using lf by (simp add: i1 Unlock_def lock_free_def)
  from a l have d: "destroy_each g envs (range_keys (instances (i1\<lparr>shuttingDown := True\<rparr>)) order) ?i3 = Returns i' r"
    by (simp add: DestroyAllInstances_def Let_def)
  from destroy_each_lock[OF d lf3] have "lock_free i'" .
  moreover have "removes (if lock_free i then i\<lparr>shuttingDown := True\<rparr> else i)
      (inventory_of (DestroyAllInstances g order envs i))"
    by (rule DestroyAllInstances_removes)
  with a lf have "shuttingDown i'" by (simp add: inventory_of_def removes_def)
  ultimately show ?thesis using lf by simp
qed

lemma inventory_of_forget [simp]: "inventory_of (forget out) = inventory_of out"
  by (cases out) (simp_all add: forget_def inventory_of_def)

lemma step_removes_other:
  "(\<forall>penv env. operation \<noteq> Boot penv env) \<Longrightarrow> (\<forall>order envs. operation \<noteq> DestroyAll order envs) \<Longrightarrow>
     removes i (inventory_of (step g operation i))"
proof (cases operation)
  case (ChildExits env name)
  then show ?thesis by (auto simp: inventory_of_def reaper_eq split: option.splits)
next
  case (Destroy env name)
  then show ?thesis by (simp add: DestroyInstance_removes)
next
  case (GetAll order)
  then show ?thesis by (simp add: GetAllInstances_removes)
next
  case (ConnectInfoOf marshal name)
  then show ?thesis by (simp add: GetConnectInfo_removes)
next
  case (Nftables env)
  then show ?thesis by simp
qed auto

lemma step_shuttingDown_removes:
  "shuttingDown i \<Longrightarrow> removes i (inventory_of (step g operation i))"
proof (cases operation)
  case (Boot penv env)
  assume "shuttingDown i"
  with Boot show ?thesis by (simp add: BootInstance_shuttingDown_removes)
next
  case (DestroyAll order envs)
  assume "shuttingDown i"
  then have "(if lock_free i then i\<lparr>shuttingDown := True\<rparr> else i) = i" by (cases i) simp
  with DestroyAllInstances_removes[of i g order envs] DestroyAll show ?thesis by simp
next
  case (ChildExits env name)
  then show ?thesis by (intro step_removes_other) simp_all
next
  case (Destroy env name)
  then show ?thesis by (intro step_removes_other) simp_all
next
  case (GetAll order)
  then show ?thesis by (intro step_removes_other) simp_all
next
  case (ConnectInfoOf marshal name)
  then show ?thesis by (intro step_removes_other) simp_all
next
  case (Nftables env)
  then show ?thesis by (intro step_removes_other) simp_all
qed

lemma run_shuttingDown_removes: "shuttingDown i \<Longrightarrow> removes i (run g ops i)"
proof (induction ops arbitrary: i)
  case Nil
  show ?case by simp
next
  case (Cons operation rest)
  let ?i1 = "inventory_of (step g operation i)"
  from Cons.prems have r: "removes i ?i1" by (rule step_shuttingDown_removes)
  then have sd: "shuttingDown ?i1" using Cons.prems by (simp add: removes_def)
  show ?case
  proof (cases "step g operation i")
    case (Panics i1)
    with r show ?thesis by (simp add: inventory_of_def)
  next
    case (Returns i1 u)
    with r sd Cons.IH[of i1] show ?thesis
      by (simp add: inventory_of_def) (metis removes_trans)
  next
    case (Blocks i1)
    with r sd Cons.IH[of i1] show ?thesis
      by (simp add: inventory_of_def) (metis removes_trans)
  qed
qed

subsection \<open>After \<open>DestroyAllInstances\<close>\<close>

lemma returned_Some: "returned out = Some r \<Longrightarrow> out = Returns (inventory_of out) r"
  by (cases out) (simp_all add: returned_def inventory_of_def)

text \<open>
  Claim C3, as the code has it. Once \<open>DestroyAllInstances\<close> has returned, the inventory is
  shutting down and stays so through every later sequence of operations; no later operation
  registers an instance, and a later \<open>BootInstance\<close> leaves the instance map and the IPAM
  set as they are and never returns without an error. Where the lock is free and the
  prebuild guard is not stuck, it returns an error: \<open>system is shutting down\<close>, or
  \<open>available VM address space exhausted\<close> when 63 slots are taken (the two errors that
  the specification puts under AddressSpaceExhausted), or, only when the prebuild guard
  has not yet completed, the error of the workdir preparation or of the image refresh.
\<close>

theorem no_boot_after_destroy_all:
  assumes "DestroyAllInstances g order envs i0 = Returns i1 r"
  shows "let i2 = run g ops i1; out = BootInstance g penv env i2 in
     shuttingDown i2 \<and>
     (\<forall>name. instances i2 name = None \<or> instances i2 name = instances i1 name) \<and>
     instances (inventory_of out) = instances i2 \<and>
     ipamSlots (inventory_of out) = ipamSlots i2 \<and>
     returned out \<noteq> Some None \<and>
     (lock_free i2 \<and> (prebuild_done i2 \<or> \<not> prebuild_m i2) \<longrightarrow>
        (\<exists>e. returned out = Some (Some e) \<and>
           (e = ErrShuttingDown \<or> e = ErrAddressSpaceExhausted \<or>
            (\<not> prebuild_done i2 \<and> (\<exists>msg. e = ErrExternal msg \<and>
               (prepareWorkdir penv = Some msg \<or>
                prepareWorkdir penv = None \<and> ensureImages penv = Some msg))))))"
proof -
  let ?i2 = "run g ops i1"
  let ?out = "BootInstance g penv env ?i2"
  from DestroyAllInstances_shuttingDown[OF assms] have sd1: "shuttingDown i1" by simp
  from run_shuttingDown_removes[OF sd1, of g ops] have rm: "removes i1 ?i2" .
  with sd1 have sd2: "shuttingDown ?i2" by (simp add: removes_def)
  from rm have inst: "\<forall>name. instances ?i2 name = None \<or> instances ?i2 name = instances i1 name"
    by (simp add: removes_def)
  note B = BootInstance_shuttingDown[OF sd2, of g penv env]
  from B have same: "instances (inventory_of ?out) = instances ?i2"
      "ipamSlots (inventory_of ?out) = ipamSlots ?i2" "returned ?out \<noteq> Some None"
    by (auto simp: inventory_of_def returned_def)
  have err: "\<exists>e. returned ?out = Some (Some e) \<and>
           (e = ErrShuttingDown \<or> e = ErrAddressSpaceExhausted \<or>
            (\<not> prebuild_done ?i2 \<and> (\<exists>msg. e = ErrExternal msg \<and>
               (prepareWorkdir penv = Some msg \<or>
                prepareWorkdir penv = None \<and> ensureImages penv = Some msg))))"
    if "lock_free ?i2 \<and> (prebuild_done ?i2 \<or> \<not> prebuild_m ?i2)"
    using B that by (auto simp: returned_def)
  from sd2 inst same err show ?thesis by (simp add: Let_def)
qed

theorem no_boot_after_destroy_all_witness:
  "shuttingDown (inventory_of (DestroyAllInstances example_group [''fleetingd0''] destroy_all_ok
       (run example_group [Boot prebuild_ok boot_ok] NewInventory))) \<and>
   returned (BootInstance example_group prebuild_ok boot_ok
     (inventory_of (DestroyAllInstances example_group [''fleetingd0''] destroy_all_ok
       (run example_group [Boot prebuild_ok boot_ok] NewInventory)))) = Some (Some ErrShuttingDown) \<and>
   instances (inventory_of (BootInstance example_group prebuild_ok boot_ok
     (inventory_of (DestroyAllInstances example_group [''fleetingd0''] destroy_all_ok
       (run example_group [Boot prebuild_ok boot_ok] NewInventory))))) =
   instances (inventory_of (DestroyAllInstances example_group [''fleetingd0''] destroy_all_ok
       (run example_group [Boot prebuild_ok boot_ok] NewInventory)))"
proof -
  let ?i0 = "run example_group [Boot prebuild_ok boot_ok] NewInventory"
  let ?d = "DestroyAllInstances example_group [''fleetingd0''] destroy_all_ok ?i0"
  let ?i1 = "inventory_of ?d"
  let ?out = "BootInstance example_group prebuild_ok boot_ok ?i1"
  have "returned ?d = Some None" by code_simp
  then have d: "?d = Returns ?i1 None" by (rule returned_Some)
  have l: "lock_free ?i1 \<and> (prebuild_done ?i1 \<or> \<not> prebuild_m ?i1)" by code_simp
  have e: "returned ?out = Some (Some ErrShuttingDown)" by code_simp
  from no_boot_after_destroy_all[OF d, of "[]" prebuild_ok boot_ok] l
  have "shuttingDown ?i1" "instances (inventory_of ?out) = instances ?i1"
    by (simp_all add: Let_def)
  with e show ?thesis by simp
qed

text \<open>
  The error is not always of the AddressSpaceExhausted kind: shut down a fresh inventory,
  then boot while the image download times out; the prebuild guard runs first, and the call
  returns the error of \<open>ensureImages\<close>. And a call need not return: after a
  \<open>GetConnectInfo\<close> for a name that is not registered, which keeps its read lock, the
  boot waits for the exclusive lock.
\<close>

theorem shutdown_error_counterexample:
  "returned (DestroyAllInstances example_group [] destroy_all_ok NewInventory) = Some None \<and>
   returned (BootInstance example_group prebuild_images_fail boot_ok
       (inventory_of (DestroyAllInstances example_group [] destroy_all_ok NewInventory))) =
     Some (Some (ErrExternal ''context deadline exceeded (Client.Timeout exceeded while awaiting headers)'')) \<and>
   ErrExternal ''context deadline exceeded (Client.Timeout exceeded while awaiting headers)'' \<noteq> ErrAddressSpaceExhausted \<and>
   ErrExternal ''context deadline exceeded (Client.Timeout exceeded while awaiting headers)'' \<noteq> ErrShuttingDown \<and>
   returned (BootInstance example_group prebuild_ok boot_ok
       (run example_group [ConnectInfoOf (MarshalPrivateKey marshal_ok) ''fleetingd9'']
          (inventory_of (DestroyAllInstances example_group [] destroy_all_ok NewInventory)))) = None"
  by code_simp

subsection \<open>The prebuild guard\<close>

lemma boot_worker_prebuild_done:
  "boot_worker g env i = Returns i' r \<Longrightarrow> prebuild_done i' = prebuild_done i"
  using boot_worker_outcome[of i g env] by auto

text \<open>
  Claim C1, as the code has it. When the first prebuild attempt fails, that call of
  \<open>BootInstance\<close> returns the error and the \<open>sync.Once\<close> guard is complete all the same;
  every call of \<open>BootInstance\<close> that returns leaves the guard complete. A call that finds
  the guard complete does not run the prebuild again: it is the worker boot alone,
  whatever the prebuild steps would do now.
\<close>

theorem prebuild_guard_completes_on_failure:
  "(\<not> prebuild_done i \<and> \<not> prebuild_m i \<and>
    RunPrebuild g penv (i\<lparr>prebuild_m := True\<rparr>) = Returns i1 (Some err) \<longrightarrow>
      BootInstance g penv env i = Returns (i1\<lparr>prebuild_done := True, prebuild_m := False\<rparr>) (Some err)) \<and>
   (prebuild_done i \<longrightarrow> BootInstance g penv env i = boot_worker g env i) \<and>
   (BootInstance g penv env i = Returns i' r \<longrightarrow> prebuild_done i')"
proof (intro conjI impI)
  assume "\<not> prebuild_done i \<and> \<not> prebuild_m i \<and>
    RunPrebuild g penv (i\<lparr>prebuild_m := True\<rparr>) = Returns i1 (Some err)"
  then show "BootInstance g penv env i = Returns (i1\<lparr>prebuild_done := True, prebuild_m := False\<rparr>) (Some err)"
    by (simp add: BootInstance_first)
next
  assume "prebuild_done i"
  then show "BootInstance g penv env i = boot_worker g env i" by (rule BootInstance_done)
next
  assume a: "BootInstance g penv env i = Returns i' r"
  show "prebuild_done i'"
  proof (cases "prebuild_done i")
    case True
    with a have "boot_worker g env i = Returns i' r" by (simp add: BootInstance_done)
    from boot_worker_prebuild_done[OF this] True show ?thesis by simp
  next
    case nd: False
    show ?thesis
    proof (cases "prebuild_m i")
      case True
      with nd a show ?thesis by (simp add: BootInstance_busy)
    next
      case False
      from a BootInstance_first[OF nd False, of g penv env] show ?thesis
        by (auto split: outcome.splits option.splits dest: boot_worker_prebuild_done)
    qed
  qed
qed

theorem prebuild_guard_completes_on_failure_witness:
  "BootInstance example_group prebuild_images_fail boot_ok NewInventory =
     Returns (NewInventory\<lparr>prebuild_m := True, prebuild_done := True, prebuild_m := False\<rparr>)
       (Some (ErrExternal ''context deadline exceeded (Client.Timeout exceeded while awaiting headers)'')) \<and>
   BootInstance example_group prebuild_images_fail boot_ok (NewInventory\<lparr>prebuild_done := True\<rparr>) =
     boot_worker example_group boot_ok (NewInventory\<lparr>prebuild_done := True\<rparr>) \<and>
   prebuild_done (inventory_of (BootInstance example_group prebuild_images_fail boot_ok NewInventory))"
proof -
  let ?err = "ErrExternal ''context deadline exceeded (Client.Timeout exceeded while awaiting headers)''"
  let ?j = "NewInventory\<lparr>prebuild_m := True\<rparr>"
  have h: "\<not> prebuild_done NewInventory \<and> \<not> prebuild_m NewInventory \<and>
      RunPrebuild example_group prebuild_images_fail ?j = Returns ?j (Some ?err)"
    by (simp add: NewInventory_def RunPrebuild_def ensureImages_def prebuild_images_fail_def prebuild_ok_def)
  from prebuild_guard_completes_on_failure[of NewInventory example_group prebuild_images_fail ?j ?err boot_ok] h
  have 1: "BootInstance example_group prebuild_images_fail boot_ok NewInventory =
     Returns (?j\<lparr>prebuild_done := True, prebuild_m := False\<rparr>) (Some ?err)"
    by blast
  have d: "prebuild_done (NewInventory\<lparr>prebuild_done := True\<rparr>)" by simp
  from prebuild_guard_completes_on_failure[of "NewInventory\<lparr>prebuild_done := True\<rparr>" example_group
      prebuild_images_fail ?j ?err boot_ok] d
  have 2: "BootInstance example_group prebuild_images_fail boot_ok (NewInventory\<lparr>prebuild_done := True\<rparr>) =
     boot_worker example_group boot_ok (NewInventory\<lparr>prebuild_done := True\<rparr>)"
    by blast
  from prebuild_guard_completes_on_failure[of NewInventory example_group prebuild_images_fail ?j ?err boot_ok
      "?j\<lparr>prebuild_done := True, prebuild_m := False\<rparr>" "Some ?err"] 1
  have 3: "prebuild_done (?j\<lparr>prebuild_done := True, prebuild_m := False\<rparr>)" by blast
  from 1 2 3 show ?thesis by (simp add: inventory_of_def)
qed

text \<open>
  No retry: the image download times out in the first call, which returns that error; the
  guard is complete; a second call in the same environment, where \<open>RunPrebuild\<close> would fail
  again, returns no error and registers the worker \<open>fleetingd0\<close>.
\<close>

theorem prebuild_not_retried_counterexample:
  "returned (BootInstance example_group prebuild_images_fail boot_ok NewInventory) =
     Some (Some (ErrExternal ''context deadline exceeded (Client.Timeout exceeded while awaiting headers)'')) \<and>
   prebuild_done (inventory_of (BootInstance example_group prebuild_images_fail boot_ok NewInventory)) \<and>
   returned (RunPrebuild example_group prebuild_images_fail
       (inventory_of (BootInstance example_group prebuild_images_fail boot_ok NewInventory))) =
     Some (Some (ErrExternal ''context deadline exceeded (Client.Timeout exceeded while awaiting headers)'')) \<and>
   returned (BootInstance example_group prebuild_images_fail boot_ok
       (inventory_of (BootInstance example_group prebuild_images_fail boot_ok NewInventory))) =
     Some None \<and>
   map_option Name (instances (inventory_of (BootInstance example_group prebuild_images_fail boot_ok
       (inventory_of (BootInstance example_group prebuild_images_fail boot_ok NewInventory)))) ''fleetingd0'') =
     Some ''fleetingd0''"
  by code_simp

subsection \<open>A failed boot keeps its slot\<close>

text \<open>
  Claim C2, the code at a failing input. On a fresh inventory with subnet \<open>10.0.0.\<close>, the
  prebuild succeeds and \<open>qemu-img create\<close> then fails in \<open>createOverlay\<close>:
  \<open>BootInstance\<close> returns that error with the lock released, no instance is registered,
  and the key \<open>10.0.0.0/30\<close>, inserted before the failure, is still in the IPAM set,
  which was empty before the call.
\<close>

theorem failed_boot_leaks_slot:
  "ipamSlots NewInventory = {} \<and>
   returned (BootInstance example_group prebuild_ok boot_overlay_fails NewInventory) =
     Some (Some (ErrExternal ''exit status 1'')) \<and>
   ipamSlots (inventory_of (BootInstance example_group prebuild_ok boot_overlay_fails NewInventory)) =
     {''10.0.0.0/30''} \<and>
   instances (inventory_of (BootInstance example_group prebuild_ok boot_overlay_fails NewInventory))
     ''fleetingd0'' = None \<and>
   lock_free (inventory_of (BootInstance example_group prebuild_ok boot_overlay_fails NewInventory))"
  by code_simp

subsection \<open>The invariant of the inventory\<close>

lemma base_in_all:
  assumes "walk_subnets g slots 0 = Inr s"
  shows "slot_key g s \<in> all_slots g" "instanceName_of s \<in> all_names"
proof -
  from walk_subnets_Inr[OF assms] have "0 \<le> s" "s < 251" "4 dvd s" by simp_all
  then obtain k where k: "s = 4 * k" "0 \<le> k" "k \<le> 62" by (auto elim!: dvdE)
  then have "k \<in> set [0..62]" by simp
  then show "slot_key g s \<in> all_slots g" "instanceName_of s \<in> all_names"
    unfolding all_slots_def all_names_def k(1) by (simp_all only: set_map image_eqI)
qed

lemma walk_subnets_empty: "walk_subnets g {} 0 = Inr 0"
  by (simp add: walk_subnets.simps stepSize_def)

lemma inv_removes: "inventory_inv g i \<Longrightarrow> removes i i' \<Longrightarrow> inventory_inv g i'"
proof -
  assume i: "inventory_inv g i" and r: "removes i i'"
  from r have d: "dom (instances i') \<subseteq> dom (instances i)"
    unfolding removes_def by (metis domIff subsetI)
  from r have s: "ipamSlots i' \<subseteq> ipamSlots i" by (simp add: removes_def)
  from r have f: "\<not> prebuild_done i' \<Longrightarrow> \<not> prebuild_done i"
    "\<not> prebuild_done i' \<Longrightarrow> \<not> prebuild_m i' \<Longrightarrow> \<not> prebuild_m i"
    by (auto simp: removes_def)
  from i d s f show ?thesis unfolding inventory_inv_def by blast
qed

lemma inv_frame [simp]:
  "inventory_inv g (i\<lparr>shuttingDown := b\<rparr>) = inventory_inv g i"
  "inventory_inv g (i\<lparr>lock_writer := w\<rparr>) = inventory_inv g i"
  "inventory_inv g (i\<lparr>lock_readers := n\<rparr>) = inventory_inv g i"
  by (simp_all add: inventory_inv_def)

lemma inv_done_slot:
  "inventory_inv g i \<Longrightarrow> walk_subnets g (ipamSlots i) 0 = Inr s \<Longrightarrow>
     inventory_inv g (i\<lparr>prebuild_done := True, prebuild_m := m,
        ipamSlots := insert (slot_key g s) (ipamSlots i)\<rparr>)"
  by (simp add: inventory_inv_def base_in_all)

lemma inv_done_instance:
  "inventory_inv g i \<Longrightarrow> walk_subnets g (ipamSlots i) 0 = Inr s \<Longrightarrow>
     inventory_inv g (i\<lparr>prebuild_done := True, prebuild_m := m,
        ipamSlots := insert (slot_key g s) (ipamSlots i),
        instances := (instances i)(instanceName_of s \<mapsto> inst)\<rparr>)"
  using base_in_all[of g "ipamSlots i" s] by (simp add: inventory_inv_def)

lemma inv_done: "inventory_inv g i \<Longrightarrow> inventory_inv g (i\<lparr>prebuild_done := True, prebuild_m := m\<rparr>)"
  by (simp add: inventory_inv_def)

lemma boot_worker_inv:
  assumes i: "inventory_inv g i" and d: "prebuild_done i"
  shows "inventory_inv g (inventory_of (boot_worker g env i))"
proof -
  have e: "i\<lparr>prebuild_done := True, prebuild_m := prebuild_m i\<rparr> = i" using d by (cases i) simp
  have a: "inventory_inv g (i\<lparr>ipamSlots := insert (slot_key g s) (ipamSlots i)\<rparr>)"
    if "walk_subnets g (ipamSlots i) 0 = Inr s" for s
    using inv_done_slot[OF i that, where m = "prebuild_m i"] d by (simp add: inventory_inv_def)
  have b: "inventory_inv g (i\<lparr>ipamSlots := insert (slot_key g s) (ipamSlots i),
        instances := (instances i)(instanceName_of s \<mapsto> inst)\<rparr>)"
    if "walk_subnets g (ipamSlots i) 0 = Inr s" for s inst
    using inv_done_instance[OF i that, where m = "prebuild_m i" and inst = inst] d by (simp add: inventory_inv_def)
  from boot_worker_outcome[of i g env] i a b show ?thesis
    by (auto simp: inventory_of_def)
qed

lemma BootInstance_inv:
  assumes i: "inventory_inv g i"
  shows "inventory_inv g (inventory_of (BootInstance g penv env i))"
proof (cases "prebuild_done i")
  case True
  with boot_worker_inv[OF i True, of env] show ?thesis by (simp add: BootInstance_done)
next
  case nd: False
  show ?thesis
  proof (cases "prebuild_m i")
    case True
    with nd i show ?thesis by (simp add: BootInstance_busy inventory_of_def)
  next
    case nm: False
    let ?j = "i\<lparr>prebuild_m := True\<rparr>"
    from i nd nm have empty: "ipamSlots i = {}" by (simp add: inventory_inv_def)
    have ij: "inventory_inv g ?j" using i nd by (simp add: inventory_inv_def)
    have fin: "inventory_inv g (?j\<lparr>prebuild_done := True, prebuild_m := False\<rparr>)"
      using inv_done[OF ij, of False] by simp
    note B = BootInstance_first[OF nd nm, of g penv env]
    show ?thesis
    proof (cases "prepareWorkdir penv = None \<and> ensureImages penv = None")
      case False
      have "\<exists>msg. RunPrebuild g penv ?j = Returns ?j (Some (ErrExternal msg))"
      proof (cases "prepareWorkdir penv")
        case (Some msg)
        then show ?thesis by (simp add: RunPrebuild_eq)
      next
        case None
        with False obtain msg where "ensureImages penv = Some msg" by auto
        with None show ?thesis by (simp add: RunPrebuild_eq)
      qed
      then obtain msg where "RunPrebuild g penv ?j = Returns ?j (Some (ErrExternal msg))" ..
      with B fin show ?thesis by (simp add: inventory_of_def)
    next
      case True
      then have rp: "RunPrebuild g penv ?j = PrebuildInstance g penv ?j"
        by (simp add: RunPrebuild_eq)
      have w0: "walk_subnets g (ipamSlots ?j) 0 = Inr s \<Longrightarrow> s = 0" for s
        using empty by (simp add: walk_subnets_empty)
      have slot: "inventory_inv g (k\<lparr>prebuild_done := True, prebuild_m := False\<rparr>)"
        if "k = ?j\<lparr>ipamSlots := insert (slot_key g s) (ipamSlots ?j)\<rparr> \<or>
            k = ?j\<lparr>lock_writer := True, ipamSlots := insert (slot_key g s) (ipamSlots ?j)\<rparr> \<or>
            k = ?j\<lparr>ipamSlots := insert (slot_key g s) (ipamSlots ?j),
                   instances := (instances ?j)(instanceName_of s \<mapsto> inst)\<rparr>"
          "walk_subnets g (ipamSlots ?j) 0 = Inr s" for k s inst
      proof -
        from base_in_all[OF that(2)] have "slot_key g s \<in> all_slots g" "instanceName_of s \<in> all_names" .
        with that(1) ij show ?thesis by (elim disjE) (simp_all add: inventory_inv_def)
      qed
      have blocked: "inventory_inv g (?j\<lparr>ipamSlots := insert (slot_key g s) (ipamSlots ?j),
                   instances := (instances ?j)(instanceName_of s \<mapsto> inst)\<rparr>)"
        if "walk_subnets g (ipamSlots ?j) 0 = Inr s" for s inst
      proof -
        from base_in_all[OF that] have "slot_key g s \<in> all_slots g" "instanceName_of s \<in> all_names" .
        with ij w0[OF that] empty show ?thesis by (simp add: inventory_inv_def)
      qed
      have reaped: "inventory_inv g (?j\<lparr>instances := (instances ?j)(instanceName_of s := None)\<rparr>
           \<lparr>prebuild_done := True, prebuild_m := False\<rparr>) \<and>
         prebuild_done (?j\<lparr>instances := (instances ?j)(instanceName_of s := None)\<rparr>
           \<lparr>prebuild_done := True, prebuild_m := False\<rparr>)" for s
        using ij by (auto simp: inventory_inv_def)
      from PrebuildInstance_outcome[of ?j g penv]
      show ?thesis
      proof (elim disjE conjE exE)
        assume "PrebuildInstance g penv ?j = Blocks ?j"
        with B rp ij show ?thesis by (simp add: inventory_of_def)
      next
        assume "PrebuildInstance g penv ?j = Returns ?j (Some ErrAddressSpaceExhausted)"
        with B rp fin show ?thesis by (simp add: inventory_of_def)
      next
        assume "PrebuildInstance g penv ?j = Returns ?j (Some ErrAddressSpaceExhausted)"
        with B rp fin show ?thesis by (simp add: inventory_of_def)
      next
        assume "PrebuildInstance g penv ?j = Returns ?j (Some ErrShuttingDown)"
        with B rp fin show ?thesis by (simp add: inventory_of_def)
      next
        fix s msg
        assume w: "walk_subnets g (ipamSlots ?j) 0 = Inr s"
          and p: "PrebuildInstance g penv ?j =
            Returns (?j\<lparr>ipamSlots := insert (slot_key g s) (ipamSlots ?j)\<rparr>) (Some (ErrExternal msg))"
        from slot[OF _ w, of "?j\<lparr>ipamSlots := insert (slot_key g s) (ipamSlots ?j)\<rparr>"] B rp p
        show ?thesis by (simp add: inventory_of_def)
      next
        fix s msg
        assume w: "walk_subnets g (ipamSlots ?j) 0 = Inr s"
          and p: "PrebuildInstance g penv ?j =
            Returns (?j\<lparr>lock_writer := True, ipamSlots := insert (slot_key g s) (ipamSlots ?j)\<rparr>)
              (Some (ErrExternal msg))"
        from slot[OF _ w, of "?j\<lparr>lock_writer := True, ipamSlots := insert (slot_key g s) (ipamSlots ?j)\<rparr>"] B rp p
        show ?thesis by (simp add: inventory_of_def)
      next
        fix s inst msg
        assume w: "walk_subnets g (ipamSlots ?j) 0 = Inr s"
          and p: "PrebuildInstance g penv ?j =
            Returns (?j\<lparr>ipamSlots := insert (slot_key g s) (ipamSlots ?j),
                   instances := (instances ?j)(instanceName_of s \<mapsto> inst)\<rparr>) (Some (ErrExternal msg))"
        from slot[OF _ w, of "?j\<lparr>ipamSlots := insert (slot_key g s) (ipamSlots ?j),
                   instances := (instances ?j)(instanceName_of s \<mapsto> inst)\<rparr>" inst] B rp p
        show ?thesis by (simp add: inventory_of_def)
      next
        fix s inst
        assume w: "walk_subnets g (ipamSlots ?j) 0 = Inr s"
          and p: "PrebuildInstance g penv ?j =
            Blocks (?j\<lparr>ipamSlots := insert (slot_key g s) (ipamSlots ?j),
                   instances := (instances ?j)(instanceName_of s \<mapsto> inst)\<rparr>)"
        from blocked[OF w, of inst] B rp p show ?thesis by (simp add: inventory_of_def)
      next
        fix s
        assume p: "PrebuildInstance g penv ?j =
            Returns (?j\<lparr>instances := (instances ?j)(instanceName_of s := None)\<rparr>) None"
        let ?k = "?j\<lparr>instances := (instances ?j)(instanceName_of s := None)\<rparr>
           \<lparr>prebuild_done := True, prebuild_m := False\<rparr>"
        from reaped[of s] have "inventory_inv g ?k" "prebuild_done ?k" by blast+
        from boot_worker_inv[OF this, of env] B rp p show ?thesis by simp
      qed
    qed
  qed
qed

lemma step_inv: "inventory_inv g i \<Longrightarrow> inventory_inv g (inventory_of (step g operation i))"
proof (cases operation)
  case (Boot penv env)
  assume "inventory_inv g i"
  with Boot show ?thesis by (simp add: BootInstance_inv)
next
  case (DestroyAll order envs)
  assume "inventory_inv g i"
  then have "inventory_inv g (if lock_free i then i\<lparr>shuttingDown := True\<rparr> else i)" by simp
  from inv_removes[OF this DestroyAllInstances_removes] DestroyAll show ?thesis by simp
next
  case (ChildExits env name)
  assume "inventory_inv g i"
  moreover from ChildExits have "removes i (inventory_of (step g operation i))"
    by (intro step_removes_other) simp_all
  ultimately show ?thesis by (rule inv_removes)
next
  case (Destroy env name)
  assume "inventory_inv g i"
  moreover from Destroy have "removes i (inventory_of (step g operation i))"
    by (intro step_removes_other) simp_all
  ultimately show ?thesis by (rule inv_removes)
next
  case (GetAll order)
  assume "inventory_inv g i"
  moreover from GetAll have "removes i (inventory_of (step g operation i))"
    by (intro step_removes_other) simp_all
  ultimately show ?thesis by (rule inv_removes)
next
  case (ConnectInfoOf marshal name)
  assume "inventory_inv g i"
  moreover from ConnectInfoOf have "removes i (inventory_of (step g operation i))"
    by (intro step_removes_other) simp_all
  ultimately show ?thesis by (rule inv_removes)
next
  case (Nftables env)
  assume "inventory_inv g i"
  moreover from Nftables have "removes i (inventory_of (step g operation i))"
    by (intro step_removes_other) simp_all
  ultimately show ?thesis by (rule inv_removes)
qed

lemma run_inv: "inventory_inv g i \<Longrightarrow> inventory_inv g (run g ops i)"
proof (induction ops arbitrary: i)
  case Nil
  then show ?case by simp
next
  case (Cons operation rest)
  from step_inv[OF Cons.prems, of operation] have s: "inventory_inv g (inventory_of (step g operation i))" .
  show ?case
  proof (cases "step g operation i")
    case (Panics i1)
    with Cons.prems show ?thesis by simp
  next
    case (Returns i1 u)
    with s Cons.IH[of i1] show ?thesis by (simp add: inventory_of_def)
  next
    case (Blocks i1)
    with s Cons.IH[of i1] show ?thesis by (simp add: inventory_of_def)
  qed
qed

lemma inv_NewInventory: "inventory_inv g NewInventory"
  by (simp add: inventory_inv_def NewInventory_def)

lemma inv_card:
  assumes "inventory_inv g i"
  shows "card (ipamSlots i) \<le> 63" "card (dom (instances i)) \<le> 63"
    "card (ipamSlots i) = 63 \<Longrightarrow> prebuild_done i"
proof -
  have "card (all_slots g) \<le> length (map (\<lambda>k. slot_key g (4 * k)) [0..62])"
    unfolding all_slots_def by (rule card_length)
  then have a: "card (all_slots g) \<le> 63" by simp
  have "card all_names \<le> length (map (\<lambda>k. instanceName_of (4 * k)) [0..62])"
    unfolding all_names_def by (rule card_length)
  then have b: "card all_names \<le> 63" by simp
  have fa: "finite (all_slots g)" and fb: "finite all_names"
    by (simp_all add: all_slots_def all_names_def)
  from assms have sa: "ipamSlots i \<subseteq> all_slots g" and sb: "dom (instances i) \<subseteq> all_names"
    by (simp_all add: inventory_inv_def)
  from card_mono[OF fa sa] a show "card (ipamSlots i) \<le> 63" by simp
  from card_mono[OF fb sb] b show "card (dom (instances i)) \<le> 63" by simp
  show "prebuild_done i" if c: "card (ipamSlots i) = 63"
  proof (rule ccontr)
    assume "\<not> prebuild_done i"
    with assms have "ipamSlots i \<subseteq> {slot_key g 0}" by (simp add: inventory_inv_def)
    then have "card (ipamSlots i) \<le> card {slot_key g 0}" by (intro card_mono) simp_all
    with c show False by simp
  qed
qed

subsection \<open>The rendered ruleset and the order of the map iteration\<close>







subsection \<open>Which operations give the lock back\<close>

lemma returns_simps [simp]:
  "returns (Returns i r)" "\<not> returns (Panics i)" "\<not> returns (Blocks i)"
  by (simp_all add: returns_def returned_def)

lemma inventory_of_simps [simp]:
  "inventory_of (Returns i r) = i" "inventory_of (Panics i) = i" "inventory_of (Blocks i) = i"
  by (simp_all add: inventory_of_def)

lemma GetAllInstances_eq:
  "GetAllInstances order i =
     (if lock_writer i then Blocks i else Returns i (range_keys (instances i) order))"
  by (simp add: GetAllInstances_def RLock_cases Let_def)

lemma GetConnectInfo_eq:
  "GetConnectInfo marshal name i =
     (if lock_writer i then Blocks i
      else (case instances i name of
              None \<Rightarrow> Returns (i\<lparr>lock_readers := Suc (lock_readers i)\<rparr>) (Inl ErrInstanceNotFound)
            | Some instance \<Rightarrow>
                (case marshal (SSHPrivateKey instance) of
                   MarshalPanics \<Rightarrow> Panics (i\<lparr>lock_readers := Suc (lock_readers i)\<rparr>)
                 | MarshalFails msg \<Rightarrow> Returns (i\<lparr>lock_readers := Suc (lock_readers i)\<rparr>) (Inl (ErrExternal msg))
                 | Marshalled marshalledKey \<Rightarrow>
                     Returns i (Inr \<lparr> ID = Name instance, InternalAddr = InstanceTapIP instance,
                        Username = ''ubuntu'', OS = ''linux'', Protocol = ''ssh'', ProtocolPort = 22,
                        Key = marshalledKey, Keepalive = 10, Timeout = 3 \<rparr>))))"
  by (simp add: GetConnectInfo_def RLock_cases Let_def split: option.splits marshalled.splits)

lemma PrebuildInstance_lock:
  assumes "lock_free i" "PrebuildInstance g penv i = Returns i' r"
  shows "lock_free i' \<or>
     (lock_writer i' \<and> (\<exists>msg. getFilenameFromURL_diskImageURL penv = Inl msg \<and> r = Some (ErrExternal msg)))"
  using PrebuildInstance_outcome[of i g penv] assms by (auto simp: lock_free_def)

lemma boot_worker_lock:
  assumes "lock_free i" "boot_worker g env i = Returns i' r"
  shows "lock_free i'"
  using boot_worker_outcome[of i g env] assms by (auto simp: lock_free_def)

text \<open>A lock that is held stays held.\<close>

lemma BootInstance_held:
  assumes nf: "\<not> lock_free i"
  shows "\<not> lock_free (inventory_of (BootInstance g penv env i))"
proof (cases "prebuild_done i")
  case True
  with boot_worker_outcome[of i g env] nf show ?thesis by (auto simp: BootInstance_done)
next
  case nd: False
  show ?thesis
  proof (cases "prebuild_m i")
    case True
    with nd nf show ?thesis by (simp add: BootInstance_busy)
  next
    case nm: False
    let ?j = "i\<lparr>prebuild_m := True\<rparr>"
    have nj: "\<not> lock_free ?j" using nf by (simp add: lock_free_def)
    have fr: "lock_free (k\<lparr>prebuild_done := True, prebuild_m := False\<rparr>) = lock_free k" for k
      by (simp add: lock_free_def)
    note B = BootInstance_first[OF nd nm, of g penv env]
    have "RunPrebuild g penv ?j = Blocks ?j \<or> (\<exists>e. e \<noteq> None \<and> RunPrebuild g penv ?j = Returns ?j e)"
      using PrebuildInstance_outcome[of ?j g penv] nj
      by (auto simp: RunPrebuild_eq split: option.splits)
    then show ?thesis
    proof
      assume "RunPrebuild g penv ?j = Blocks ?j"
      with B nf show ?thesis by (simp add: lock_free_def)
    next
      assume "\<exists>e. e \<noteq> None \<and> RunPrebuild g penv ?j = Returns ?j e"
      then obtain err where "RunPrebuild g penv ?j = Returns ?j (Some err)" by auto
      with B nf show ?thesis by (simp add: lock_free_def)
    qed
  qed
qed

lemma step_held: "\<not> lock_free i \<Longrightarrow> \<not> lock_free (inventory_of (step g operation i))"
proof (cases operation)
  case (Boot penv env)
  assume "\<not> lock_free i"
  with Boot show ?thesis by (simp add: BootInstance_held)
next
  case (ChildExits env name)
  assume "\<not> lock_free i"
  with ChildExits show ?thesis by (simp add: reaper_eq split: option.splits)
next
  case (Destroy env name)
  assume "\<not> lock_free i"
  with Destroy DestroyInstance_outcome[of i g env name] show ?thesis by auto
next
  case (DestroyAll order envs)
  assume nf: "\<not> lock_free i"
  then have "Lock i = None" by (auto simp: Lock_def lock_free_def)
  with DestroyAll nf show ?thesis by (simp add: DestroyAllInstances_def)
next
  case (GetAll order)
  assume "\<not> lock_free i"
  with GetAll show ?thesis by (simp add: GetAllInstances_eq)
next
  case (ConnectInfoOf marshal name)
  assume "\<not> lock_free i"
  with ConnectInfoOf show ?thesis
    by (auto simp: GetConnectInfo_eq lock_free_def split: option.splits marshalled.splits)
next
  case (Nftables env)
  assume "\<not> lock_free i"
  with Nftables show ?thesis by simp
qed

lemma run_held: "\<not> lock_free i \<Longrightarrow> \<not> lock_free (run g ops i)"
proof (induction ops arbitrary: i)
  case Nil
  then show ?case by simp
next
  case (Cons operation rest)
  from step_held[OF Cons.prems, of g operation] have s: "\<not> lock_free (inventory_of (step g operation i))" .
  show ?case
  proof (cases "step g operation i")
    case (Panics i1)
    with Cons.prems show ?thesis by simp
  next
    case (Returns i1 u)
    with s Cons.IH[of i1] show ?thesis by simp
  next
    case (Blocks i1)
    with s Cons.IH[of i1] show ?thesis by simp
  qed
qed

lemma PrebuildInstance_leak:
  assumes "lock_free i" "\<not> shuttingDown i" "card (ipamSlots i) < MaxIPAMSlots"
    "walk_subnets g (ipamSlots i) 0 = Inr s" "pb_rand_Read penv = Inr rb"
    "createUserdataPrebuild penv = Inr path" "getFilenameFromURL_diskImageURL penv = Inl msg"
  shows "PrebuildInstance g penv i =
     Returns (i\<lparr>lock_writer := True, ipamSlots := insert (slot_key g s) (ipamSlots i)\<rparr>)
       (Some (ErrExternal msg))"
proof -
  from assms(1) have w: "\<not> lock_writer i" "lock_readers i = 0" by (simp_all add: lock_free_def)
  have "prebuild_critical g penv (i\<lparr>lock_writer := True\<rparr>) =
      (i\<lparr>lock_writer := True, ipamSlots := insert (slot_key g s) (ipamSlots i)\<rparr>, Inl (ErrExternal msg))"
    using assms(2,4,5,6,7) by (simp add: prebuild_critical_def Let_def)
  with w assms(3) show ?thesis by (simp add: PrebuildInstance_eq)
qed

lemma ensureImages_None_filename:
  "ensureImages penv = None \<Longrightarrow> \<exists>diskImageFileName. getFilenameFromURL_diskImageURL penv = Inr diskImageFileName"
  by (simp add: ensureImages_def split: sum.splits option.splits)

lemma RunPrebuild_lock:
  assumes lf: "lock_free i" and b: "RunPrebuild g penv i = Returns i' r"
  shows "lock_free i'"
proof (cases "prepareWorkdir penv = None \<and> ensureImages penv = None")
  case True
  with b have "PrebuildInstance g penv i = Returns i' r" by (simp add: RunPrebuild_eq)
  from PrebuildInstance_lock[OF lf this] ensureImages_None_filename[of penv] True
  show ?thesis by auto
next
  case False
  with b have "i' = i" by (auto simp: RunPrebuild_eq split: option.splits)
  with lf show ?thesis by simp
qed

lemma BootInstance_releases:
  assumes lf: "lock_free i" and b: "BootInstance g penv env i = Returns i' r"
  shows "lock_free i'"
proof (cases "prebuild_done i")
  case True
  with b have "boot_worker g env i = Returns i' r" by (simp add: BootInstance_done)
  from boot_worker_lock[OF lf this] show ?thesis .
next
  case nd: False
  show ?thesis
  proof (cases "prebuild_m i")
    case True
    with nd b show ?thesis by (simp add: BootInstance_busy)
  next
    case nm: False
    let ?j = "i\<lparr>prebuild_m := True\<rparr>"
    have lj: "lock_free ?j" using lf by (simp add: lock_free_def)
    note B = BootInstance_first[OF nd nm, of g penv env]
    have fr: "lock_free (k\<lparr>prebuild_done := True, prebuild_m := False\<rparr>) = lock_free k" for k
      by (simp add: lock_free_def)
    show ?thesis
    proof (cases "RunPrebuild g penv ?j")
      case (Panics i1)
      with B b show ?thesis by simp
    next
      case (Blocks i1)
      with B b show ?thesis by simp
    next
      case (Returns i1 e)
      from RunPrebuild_lock[OF lj Returns]
      have lf1: "lock_free (i1\<lparr>prebuild_done := True, prebuild_m := False\<rparr>)" by (simp add: fr)
      show ?thesis
      proof (cases e)
        case (Some err)
        with Returns B b have "i' = i1\<lparr>prebuild_done := True, prebuild_m := False\<rparr>" by simp
        with lf1 show ?thesis by simp
      next
        case None
        with Returns B b
        have "boot_worker g env (i1\<lparr>prebuild_done := True, prebuild_m := False\<rparr>) = Returns i' r"
          by simp
        from boot_worker_lock[OF lf1 this] show ?thesis .
      qed
    qed
  qed
qed

lemma GetConnectInfo_nil_key:
  assumes "lock_free i" "map_option SSHPrivateKey (instances i name) = Some None"
  shows "GetConnectInfo (MarshalPrivateKey menv) name i =
     (case check_Read menv of
        Some msg \<Rightarrow> Returns (i\<lparr>lock_readers := 1\<rparr>) (Inl (ErrExternal msg))
      | None \<Rightarrow> Panics (i\<lparr>lock_readers := 1\<rparr>))"
  using assms
  by (auto simp: GetConnectInfo_eq MarshalPrivateKey_def lock_free_def split: option.splits)

text \<open>
  Claim C10. Started with the lock free, \<open>ApplyNftables\<close>, \<open>GetAllInstances\<close>,
  \<open>DestroyInstance\<close>, \<open>DestroyAllInstances\<close>, \<open>RunPrebuild\<close>, \<open>BootInstance\<close> and the
  reaper leave the lock free whenever they return. \<open>GetConnectInfo\<close> gives the read lock
  back only on success: for a name that is not registered, and for an instance whose
  private key the marshaller answers with an error, it returns that error with one read
  lock still held; where the marshaller panics, the call does not return at all, and the
  read lock is held when the panic leaves it. The instance that \<open>PrebuildInstance\<close>
  registers has the nil private key, and on a nil key \<open>ssh.MarshalPrivateKey\<close> returns an
  error only if its read of \<open>rand.Reader\<close> fails: otherwise it panics, so for the prebuild
  instance \<open>GetConnectInfo\<close> panics instead of returning an error. \<open>PrebuildInstance\<close>
  returns with the lock free, except that it returns holding the exclusive lock when
  \<open>getFilenameFromURL(diskImageURL)\<close> fails, which it does whenever the steps before it
  succeed and that call fails; under \<open>RunPrebuild\<close> the same failure has already stopped
  \<open>ensureImages\<close>. Once the lock is held and not given back, it stays held through every
  later sequence of operations, and \<open>Lock\<close> waits forever.
\<close>

theorem locks_released_except_on_error_paths:
  "(lock_free i \<longrightarrow>
      (returns (ApplyNftables g nenv i) \<longrightarrow> lock_free (inventory_of (ApplyNftables g nenv i))) \<and>
      (returns (GetAllInstances order i) \<longrightarrow> lock_free (inventory_of (GetAllInstances order i))) \<and>
      (returns (DestroyInstance g denv name i) \<longrightarrow>
         lock_free (inventory_of (DestroyInstance g denv name i))) \<and>
      (returns (DestroyAllInstances g order envs i) \<longrightarrow>
         lock_free (inventory_of (DestroyAllInstances g order envs i))) \<and>
      lock_free (reaper g nenv s i) \<and>
      (returns (RunPrebuild g penv i) \<longrightarrow> lock_free (inventory_of (RunPrebuild g penv i))) \<and>
      (returns (BootInstance g penv env i) \<longrightarrow> lock_free (inventory_of (BootInstance g penv env i))) \<and>
      (returns (PrebuildInstance g penv i) \<longrightarrow>
         lock_free (inventory_of (PrebuildInstance g penv i)) \<or>
         (lock_writer (inventory_of (PrebuildInstance g penv i)) \<and>
          (\<exists>msg. getFilenameFromURL_diskImageURL penv = Inl msg \<and>
                 returned (PrebuildInstance g penv i) = Some (Some (ErrExternal msg))))) \<and>
      (\<not> shuttingDown i \<and> card (ipamSlots i) < MaxIPAMSlots \<and>
       walk_subnets g (ipamSlots i) 0 = Inr s \<and> pb_rand_Read penv = Inr rb \<and>
       createUserdataPrebuild penv = Inr path \<and> getFilenameFromURL_diskImageURL penv = Inl msg \<longrightarrow>
         returns (PrebuildInstance g penv i) \<and> lock_writer (inventory_of (PrebuildInstance g penv i))) \<and>
      GetConnectInfo marshal name i =
        (case instances i name of
           None \<Rightarrow> Returns (i\<lparr>lock_readers := 1\<rparr>) (Inl ErrInstanceNotFound)
         | Some instance \<Rightarrow>
             (case marshal (SSHPrivateKey instance) of
                MarshalPanics \<Rightarrow> Panics (i\<lparr>lock_readers := 1\<rparr>)
              | MarshalFails msg \<Rightarrow> Returns (i\<lparr>lock_readers := 1\<rparr>) (Inl (ErrExternal msg))
              | Marshalled marshalledKey \<Rightarrow>
                  Returns i (Inr \<lparr> ID = Name instance, InternalAddr = InstanceTapIP instance,
                     Username = ''ubuntu'', OS = ''linux'', Protocol = ''ssh'', ProtocolPort = 22,
                     Key = marshalledKey, Keepalive = 10, Timeout = 3 \<rparr>))) \<and>
      (map_option SSHPrivateKey (instances i name) = Some None \<longrightarrow>
         GetConnectInfo (MarshalPrivateKey menv) name i =
           (case check_Read menv of
              Some msg \<Rightarrow> Returns (i\<lparr>lock_readers := 1\<rparr>) (Inl (ErrExternal msg))
            | None \<Rightarrow> Panics (i\<lparr>lock_readers := 1\<rparr>)))) \<and>
   (prebuild_critical g penv i = (i', Inr s') \<longrightarrow>
      (\<exists>inst. instances i' (instanceName_of s') = Some inst \<and> SSHPrivateKey inst = None)) \<and>
   (\<not> lock_free i \<longrightarrow> \<not> lock_free (run g ops i) \<and> Lock (run g ops i) = None)"
proof (intro conjI impI)
  assume lf: "lock_free i"
  then have w: "\<not> lock_writer i" "lock_readers i = 0" by (simp_all add: lock_free_def)
  show "lock_free (inventory_of (ApplyNftables g nenv i))" using lf by simp
  show "lock_free (inventory_of (GetAllInstances order i))"
    using lf w by (simp add: GetAllInstances_eq)
  show "lock_free (reaper g nenv s i)" using lf by (simp add: reaper_eq)
  show "GetConnectInfo marshal name i =
        (case instances i name of
           None \<Rightarrow> Returns (i\<lparr>lock_readers := 1\<rparr>) (Inl ErrInstanceNotFound)
         | Some instance \<Rightarrow>
             (case marshal (SSHPrivateKey instance) of
                MarshalPanics \<Rightarrow> Panics (i\<lparr>lock_readers := 1\<rparr>)
              | MarshalFails msg \<Rightarrow> Returns (i\<lparr>lock_readers := 1\<rparr>) (Inl (ErrExternal msg))
              | Marshalled marshalledKey \<Rightarrow>
                  Returns i (Inr \<lparr> ID = Name instance, InternalAddr = InstanceTapIP instance,
                     Username = ''ubuntu'', OS = ''linux'', Protocol = ''ssh'', ProtocolPort = 22,
                     Key = marshalledKey, Keepalive = 10, Timeout = 3 \<rparr>)))"
    using w by (simp add: GetConnectInfo_eq split: option.splits marshalled.splits)
  {
    assume "map_option SSHPrivateKey (instances i name) = Some None"
    from GetConnectInfo_nil_key[OF lf this]
    show "GetConnectInfo (MarshalPrivateKey menv) name i =
           (case check_Read menv of
              Some msg \<Rightarrow> Returns (i\<lparr>lock_readers := 1\<rparr>) (Inl (ErrExternal msg))
            | None \<Rightarrow> Panics (i\<lparr>lock_readers := 1\<rparr>))" .
  }
  {
    assume "returns (DestroyInstance g denv name i)"
    then obtain i1 r where "DestroyInstance g denv name i = Returns i1 r"
      by (cases "DestroyInstance g denv name i") simp_all
    with DestroyInstance_lock[OF this] show "lock_free (inventory_of (DestroyInstance g denv name i))"
      by simp
  }
  {
    assume "returns (DestroyAllInstances g order envs i)"
    then obtain i1 r where "DestroyAllInstances g order envs i = Returns i1 r"
      by (cases "DestroyAllInstances g order envs i") simp_all
    with DestroyAllInstances_shuttingDown[OF this]
    show "lock_free (inventory_of (DestroyAllInstances g order envs i))" by simp
  }
  {
    assume "returns (RunPrebuild g penv i)"
    then obtain i1 r where b: "RunPrebuild g penv i = Returns i1 r"
      by (cases "RunPrebuild g penv i") simp_all
    from RunPrebuild_lock[OF lf b] b
    show "lock_free (inventory_of (RunPrebuild g penv i))" by simp
  }
  {
    assume "returns (BootInstance g penv env i)"
    then obtain i1 r where b: "BootInstance g penv env i = Returns i1 r"
      by (cases "BootInstance g penv env i") simp_all
    from BootInstance_releases[OF lf b] b
    show "lock_free (inventory_of (BootInstance g penv env i))" by simp
  }
  {
    assume "returns (PrebuildInstance g penv i)"
    then obtain i1 r where b: "PrebuildInstance g penv i = Returns i1 r"
      by (cases "PrebuildInstance g penv i") simp_all
    from PrebuildInstance_lock[OF lf b] b
    show "lock_free (inventory_of (PrebuildInstance g penv i)) \<or>
         (lock_writer (inventory_of (PrebuildInstance g penv i)) \<and>
          (\<exists>msg. getFilenameFromURL_diskImageURL penv = Inl msg \<and>
                 returned (PrebuildInstance g penv i) = Some (Some (ErrExternal msg))))"
      by (auto simp: returned_def)
  }
  {
    assume a: "\<not> shuttingDown i \<and> card (ipamSlots i) < MaxIPAMSlots \<and>
       walk_subnets g (ipamSlots i) 0 = Inr s \<and> pb_rand_Read penv = Inr rb \<and>
       createUserdataPrebuild penv = Inr path \<and> getFilenameFromURL_diskImageURL penv = Inl msg"
    then have "PrebuildInstance g penv i =
       Returns (i\<lparr>lock_writer := True, ipamSlots := insert (slot_key g s) (ipamSlots i)\<rparr>)
         (Some (ErrExternal msg))"
      using lf by (intro PrebuildInstance_leak) simp_all
    then show "returns (PrebuildInstance g penv i)"
      "lock_writer (inventory_of (PrebuildInstance g penv i))" by simp_all
  }
next
  assume "prebuild_critical g penv i = (i', Inr s')"
  from prebuild_critical_Inr[OF this]
  show "\<exists>inst. instances i' (instanceName_of s') = Some inst \<and> SSHPrivateKey inst = None"
    by (auto simp: Unlock_def)
next
  assume nf: "\<not> lock_free i"
  from run_held[OF this] show h: "\<not> lock_free (run g ops i)" .
  then show "Lock (run g ops i) = None" by (auto simp: Lock_def lock_free_def)
qed

theorem locks_released_except_on_error_paths_witness:
  "GetConnectInfo (MarshalPrivateKey marshal_ok) ''fleetingd0'' NewInventory =
     Returns (NewInventory\<lparr>lock_readers := 1\<rparr>) (Inl ErrInstanceNotFound) \<and>
   GetConnectInfo (MarshalPrivateKey marshal_rand_fails) ''fleetingd0''
       (inventory_of (PrebuildInstance example_group prebuild_vm_runs NewInventory)) =
     Returns ((inventory_of (PrebuildInstance example_group prebuild_vm_runs NewInventory))\<lparr>lock_readers := 1\<rparr>)
       (Inl (ErrExternal ''unexpected EOF'')) \<and>
   returns (PrebuildInstance example_group prebuild_url_fails NewInventory) \<and>
   lock_writer (inventory_of (PrebuildInstance example_group prebuild_url_fails NewInventory)) \<and>
   lock_free (inventory_of (BootInstance example_group prebuild_url_fails boot_ok NewInventory)) \<and>
   lock_free (inventory_of (DestroyAllInstances example_group [] destroy_all_ok NewInventory)) \<and>
   (\<exists>inst. instances (fst (prebuild_critical example_group prebuild_ok (NewInventory\<lparr>lock_writer := True\<rparr>)))
        (instanceName_of 0) = Some inst \<and> SSHPrivateKey inst = None) \<and>
   Lock (run example_group [Boot prebuild_ok boot_ok] (NewInventory\<lparr>lock_readers := 1\<rparr>)) = None"
proof -
  let ?msg = "''parse: invalid URL escape''"
  let ?path = "''/tmp/fleetingd/.instance_data/fleetingd0_userdata.img''"
  let ?j = "inventory_of (PrebuildInstance example_group prebuild_vm_runs NewInventory)"
  have lf: "lock_free NewInventory" by (simp add: lock_free_def NewInventory_def)
  have none: "instances NewInventory ''fleetingd0'' = None" by (simp add: NewInventory_def)
  have pre: "\<not> shuttingDown NewInventory \<and> card (ipamSlots NewInventory) < MaxIPAMSlots \<and>
       walk_subnets example_group (ipamSlots NewInventory) 0 = Inr 0 \<and>
       pb_rand_Read prebuild_url_fails = Inr (0x01, 0x02, 0x03, 0x04) \<and>
       createUserdataPrebuild prebuild_url_fails = Inr ?path \<and>
       getFilenameFromURL_diskImageURL prebuild_url_fails = Inl ?msg"
    by (simp add: NewInventory_def MaxIPAMSlots_def walk_subnets_empty prebuild_url_fails_def
        prebuild_ok_def)
  have ret: "returns (DestroyAllInstances example_group [] destroy_all_ok NewInventory)"
    by code_simp
  have retb: "returns (BootInstance example_group prebuild_url_fails boot_ok NewInventory)"
    by code_simp
  have lfj: "lock_free ?j" by code_simp
  have nil: "map_option SSHPrivateKey (instances ?j ''fleetingd0'') = Some None" by code_simp
  have chk: "check_Read marshal_rand_fails = Some ''unexpected EOF''"
    by (simp add: marshal_rand_fails_def marshal_ok_def)
  note T = locks_released_except_on_error_paths[where i = NewInventory and g = example_group
      and name = "''fleetingd0''" and order = "[]" and envs = destroy_all_ok
      and penv = prebuild_url_fails and env = boot_ok and s = 0
      and rb = "(0x01, 0x02, 0x03, 0x04)" and path = ?path and msg = ?msg
      and marshal = "MarshalPrivateKey marshal_ok"]
  from T lf none have 1: "GetConnectInfo (MarshalPrivateKey marshal_ok) ''fleetingd0'' NewInventory =
     Returns (NewInventory\<lparr>lock_readers := 1\<rparr>) (Inl ErrInstanceNotFound)"
    by simp
  from T lf pre have 2: "returns (PrebuildInstance example_group prebuild_url_fails NewInventory)"
    and 3: "lock_writer (inventory_of (PrebuildInstance example_group prebuild_url_fails NewInventory))"
    by blast+
  from T lf ret have 4: "lock_free (inventory_of (DestroyAllInstances example_group [] destroy_all_ok NewInventory))"
    by blast
  from T lf retb have 7: "lock_free (inventory_of (BootInstance example_group prebuild_url_fails boot_ok NewInventory))"
    by blast
  from locks_released_except_on_error_paths[where i = ?j and name = "''fleetingd0''"
      and menv = marshal_rand_fails] lfj nil
  have "GetConnectInfo (MarshalPrivateKey marshal_rand_fails) ''fleetingd0'' ?j =
     (case check_Read marshal_rand_fails of
        Some msg \<Rightarrow> Returns (?j\<lparr>lock_readers := 1\<rparr>) (Inl (ErrExternal msg))
      | None \<Rightarrow> Panics (?j\<lparr>lock_readers := 1\<rparr>))"
    by blast
  with chk have 8: "GetConnectInfo (MarshalPrivateKey marshal_rand_fails) ''fleetingd0'' ?j =
     Returns (?j\<lparr>lock_readers := 1\<rparr>) (Inl (ErrExternal ''unexpected EOF''))"
    by simp
  let ?p = "prebuild_critical example_group prebuild_ok (NewInventory\<lparr>lock_writer := True\<rparr>)"
  have "snd ?p = Inr 0" by code_simp
  then have p: "?p = (fst ?p, Inr 0)" by (metis prod.collapse)
  from locks_released_except_on_error_paths[where i = "NewInventory\<lparr>lock_writer := True\<rparr>"
      and g = example_group and penv = prebuild_ok and i' = "fst ?p" and s' = 0] p
  have 5: "\<exists>inst. instances (fst ?p) (instanceName_of 0) = Some inst \<and> SSHPrivateKey inst = None"
    by blast
  let ?l = "NewInventory\<lparr>lock_readers := 1\<rparr>"
  have nf: "\<not> lock_free ?l" by (simp add: lock_free_def)
  from locks_released_except_on_error_paths[where i = ?l and g = example_group
      and ops = "[Boot prebuild_ok boot_ok]"] nf
  have 6: "Lock (run example_group [Boot prebuild_ok boot_ok] ?l) = None" by blast
  from 1 8 2 3 7 4 5 6 show ?thesis by blast
qed

text \<open>
  The claim as it was written has \<open>GetConnectInfo\<close> return an error for the prebuild
  instance. While the prebuild VM runs, \<open>fleetingd0\<close> is registered with the nil key and the
  lock is free; \<open>GetConnectInfo\<close> for it does not return: the marshaller panics in its slice
  expression, with the read lock held.
\<close>

theorem prebuild_key_panics_counterexample:
  "map_option SSHPrivateKey
     (instances (inventory_of (PrebuildInstance example_group prebuild_vm_runs NewInventory)) ''fleetingd0'') =
     Some None \<and>
   lock_free (inventory_of (PrebuildInstance example_group prebuild_vm_runs NewInventory)) \<and>
   GetConnectInfo (MarshalPrivateKey marshal_ok) ''fleetingd0''
       (inventory_of (PrebuildInstance example_group prebuild_vm_runs NewInventory)) =
     Panics ((inventory_of (PrebuildInstance example_group prebuild_vm_runs NewInventory))\<lparr>lock_readers := 1\<rparr>) \<and>
   \<not> returns (GetConnectInfo (MarshalPrivateKey marshal_ok) ''fleetingd0''
       (inventory_of (PrebuildInstance example_group prebuild_vm_runs NewInventory)))"
proof -
  let ?j = "inventory_of (PrebuildInstance example_group prebuild_vm_runs NewInventory)"
  have lfj: "lock_free ?j" by code_simp
  have nil: "map_option SSHPrivateKey (instances ?j ''fleetingd0'') = Some None" by code_simp
  have chk: "check_Read marshal_ok = None" by (simp add: marshal_ok_def)
  from GetConnectInfo_nil_key[OF lfj nil, of marshal_ok] chk
  have p: "GetConnectInfo (MarshalPrivateKey marshal_ok) ''fleetingd0'' ?j = Panics (?j\<lparr>lock_readers := 1\<rparr>)"
    by simp
  then have "\<not> returns (GetConnectInfo (MarshalPrivateKey marshal_ok) ''fleetingd0'' ?j)" by simp
  with lfj nil p show ?thesis by blast
qed

subsection \<open>The capacity cap\<close>

lemma lock_inv_free: "\<not> lock_writer i \<Longrightarrow> lock_inv g i"
  by (simp add: lock_inv_def)

lemma lock_inv_removes:
  "lock_inv g i \<Longrightarrow> removes i i' \<Longrightarrow> lock_writer i' \<longrightarrow> lock_writer i \<Longrightarrow> lock_inv g i'"
  unfolding lock_inv_def removes_def by blast

lemma BootInstance_held_state:
  assumes nf: "\<not> lock_free i"
  shows "ipamSlots (inventory_of (BootInstance g penv env i)) = ipamSlots i \<and>
     lock_writer (inventory_of (BootInstance g penv env i)) = lock_writer i"
proof (cases "prebuild_done i")
  case True
  with boot_worker_outcome[of i g env] nf show ?thesis by (auto simp: BootInstance_done)
next
  case nd: False
  show ?thesis
  proof (cases "prebuild_m i")
    case True
    with nd show ?thesis by (simp add: BootInstance_busy)
  next
    case nm: False
    let ?j = "i\<lparr>prebuild_m := True\<rparr>"
    have nj: "\<not> lock_free ?j" using nf by (simp add: lock_free_def)
    note B = BootInstance_first[OF nd nm, of g penv env]
    have "RunPrebuild g penv ?j = Blocks ?j \<or> (\<exists>e. e \<noteq> None \<and> RunPrebuild g penv ?j = Returns ?j e)"
      using PrebuildInstance_outcome[of ?j g penv] nj
      by (auto simp: RunPrebuild_eq split: option.splits)
    then show ?thesis
    proof
      assume "RunPrebuild g penv ?j = Blocks ?j"
      with B show ?thesis by simp
    next
      assume "\<exists>e. e \<noteq> None \<and> RunPrebuild g penv ?j = Returns ?j e"
      then obtain err where "RunPrebuild g penv ?j = Returns ?j (Some err)" by auto
      with B show ?thesis by simp
    qed
  qed
qed

lemma boot_worker_free_writer:
  "lock_free i \<Longrightarrow> \<not> lock_writer (inventory_of (boot_worker g env i))"
  using boot_worker_outcome[of i g env] by (auto simp: lock_free_def)

lemma BootInstance_free_lock_inv:
  assumes inv: "inventory_inv g i" and lf: "lock_free i"
  shows "lock_inv g (inventory_of (BootInstance g penv env i))"
proof (cases "prebuild_done i")
  case True
  with boot_worker_free_writer[OF lf, of g env] show ?thesis
    by (simp add: BootInstance_done lock_inv_free)
next
  case nd: False
  from lf have w: "\<not> lock_writer i" by (simp add: lock_free_def)
  show ?thesis
  proof (cases "prebuild_m i")
    case True
    with nd w show ?thesis by (simp add: BootInstance_busy lock_inv_free)
  next
    case nm: False
    let ?j = "i\<lparr>prebuild_m := True\<rparr>"
    from inv nd nm have empty: "ipamSlots i = {}" by (simp add: inventory_inv_def)
    have lj: "lock_free ?j" and wj: "\<not> lock_writer ?j" using lf by (simp_all add: lock_free_def)
    note B = BootInstance_first[OF nd nm, of g penv env]
    show ?thesis
    proof (cases "prepareWorkdir penv = None \<and> ensureImages penv = None")
      case False
      have "\<exists>msg. RunPrebuild g penv ?j = Returns ?j (Some (ErrExternal msg))"
      proof (cases "prepareWorkdir penv")
        case (Some msg)
        then show ?thesis by (simp add: RunPrebuild_eq)
      next
        case None
        with False obtain msg where "ensureImages penv = Some msg" by auto
        with None show ?thesis by (simp add: RunPrebuild_eq)
      qed
      then obtain msg where "RunPrebuild g penv ?j = Returns ?j (Some (ErrExternal msg))" ..
      with B w show ?thesis by (simp add: lock_inv_def)
    next
      case True
      then have rp: "RunPrebuild g penv ?j = PrebuildInstance g penv ?j"
        by (simp add: RunPrebuild_eq)
      have w0: "walk_subnets g (ipamSlots ?j) 0 = Inr s \<Longrightarrow> s = 0" for s
        using empty by (simp add: walk_subnets_empty)
      from PrebuildInstance_outcome[of ?j g penv]
      show ?thesis
      proof (elim disjE conjE exE)
        assume "PrebuildInstance g penv ?j = Blocks ?j"
        with B rp w show ?thesis by (simp add: lock_inv_def)
      next
        assume "PrebuildInstance g penv ?j = Returns ?j (Some ErrAddressSpaceExhausted)"
        with B rp w show ?thesis by (simp add: lock_inv_def)
      next
        assume "PrebuildInstance g penv ?j = Returns ?j (Some ErrAddressSpaceExhausted)"
        with B rp w show ?thesis by (simp add: lock_inv_def)
      next
        assume "PrebuildInstance g penv ?j = Returns ?j (Some ErrShuttingDown)"
        with B rp w show ?thesis by (simp add: lock_inv_def)
      next
        fix s msg
        assume "PrebuildInstance g penv ?j =
            Returns (?j\<lparr>ipamSlots := insert (slot_key g s) (ipamSlots ?j)\<rparr>) (Some (ErrExternal msg))"
        with B rp w show ?thesis by (simp add: lock_inv_def)
      next
        fix s msg
        assume ws: "walk_subnets g (ipamSlots ?j) 0 = Inr s"
          and p: "PrebuildInstance g penv ?j =
            Returns (?j\<lparr>lock_writer := True, ipamSlots := insert (slot_key g s) (ipamSlots ?j)\<rparr>)
              (Some (ErrExternal msg))"
        from w0[OF ws] have "s = 0" .
        with B rp p empty show ?thesis by (simp add: lock_inv_def)
      next
        fix s inst msg
        assume "PrebuildInstance g penv ?j =
            Returns (?j\<lparr>ipamSlots := insert (slot_key g s) (ipamSlots ?j),
                   instances := (instances ?j)(instanceName_of s \<mapsto> inst)\<rparr>) (Some (ErrExternal msg))"
        with B rp w show ?thesis by (simp add: lock_inv_def)
      next
        fix s inst
        assume "PrebuildInstance g penv ?j =
            Blocks (?j\<lparr>ipamSlots := insert (slot_key g s) (ipamSlots ?j),
                   instances := (instances ?j)(instanceName_of s \<mapsto> inst)\<rparr>)"
        with B rp w show ?thesis by (simp add: lock_inv_def)
      next
        fix s
        assume p: "PrebuildInstance g penv ?j =
            Returns (?j\<lparr>instances := (instances ?j)(instanceName_of s := None)\<rparr>) None"
        let ?k = "?j\<lparr>instances := (instances ?j)(instanceName_of s := None)\<rparr>
           \<lparr>prebuild_done := True, prebuild_m := False\<rparr>"
        have "lock_free ?k" using lf by (simp add: lock_free_def)
        from boot_worker_free_writer[OF this, of g env] B rp p show ?thesis
          by (simp add: lock_inv_free)
      qed
    qed
  qed
qed

lemma BootInstance_lock_inv:
  assumes inv: "inventory_inv g i" and li: "lock_inv g i"
  shows "lock_inv g (inventory_of (BootInstance g penv env i))"
proof (cases "lock_free i")
  case True
  with inv show ?thesis by (rule BootInstance_free_lock_inv)
next
  case False
  from BootInstance_held_state[OF False, of g penv env] li show ?thesis
    by (simp add: lock_inv_def)
qed

lemma destroy_each_never_blocks:
  "lock_free i \<Longrightarrow> destroy_each g envs names i \<noteq> Blocks i'"
proof (induction names arbitrary: i)
  case Nil
  show ?case by simp
next
  case (Cons n names)
  show ?case
  proof (cases "DestroyInstance g (envs n) n i")
    case (Returns i1 e)
    then have l1: "lock_free i1" using DestroyInstance_lock by blast
    show ?thesis
    proof (cases e)
      case None
      with Returns Cons.IH[OF l1] show ?thesis by simp
    next
      case (Some err)
      with Returns show ?thesis by simp
    qed
  next
    case (Panics i1)
    then show ?thesis by simp
  next
    case (Blocks i1)
    with DestroyInstance_outcome[of i g "envs n" n] Cons.prems show ?thesis by auto
  qed
qed

lemma DestroyAllInstances_writer:
  assumes "\<forall>i1. DestroyAllInstances g order envs i \<noteq> Panics i1"
  shows "lock_writer (inventory_of (DestroyAllInstances g order envs i)) \<longrightarrow> lock_writer i"
proof (cases "lock_free i")
  case False
  then have "Lock i = None" by (auto simp: Lock_def lock_free_def)
  then show ?thesis by (simp add: DestroyAllInstances_def)
next
  case True
  let ?i1 = "i\<lparr>lock_writer := True\<rparr>"
  have l: "Lock i = Some ?i1" using True by (rule lock_free_Lock)
  let ?i3 = "Unlock (?i1\<lparr>shuttingDown := True\<rparr>)"
  have lf3: "lock_free ?i3" using True by (simp add: Unlock_def lock_free_def)
  let ?d = "destroy_each g envs (range_keys (instances (?i1\<lparr>shuttingDown := True\<rparr>)) order) ?i3"
  have e: "DestroyAllInstances g order envs i = ?d" using l by (simp add: DestroyAllInstances_def Let_def)
  show ?thesis
  proof (cases ?d)
    case (Returns i' r)
    from destroy_each_lock[OF this lf3] Returns e show ?thesis by (simp add: lock_free_def)
  next
    case (Panics i')
    with e assms show ?thesis by simp
  next
    case (Blocks i')
    with destroy_each_never_blocks[OF lf3, of g envs _ i'] show ?thesis by simp
  qed
qed

lemma step_lock_inv:
  assumes inv: "inventory_inv g i" and li: "lock_inv g i"
    and np: "\<forall>i1. step g operation i \<noteq> Panics i1"
  shows "lock_inv g (inventory_of (step g operation i))"
proof (cases operation)
  case (Boot penv env)
  with BootInstance_lock_inv[OF inv li, of penv env] show ?thesis by simp
next
  case (ChildExits env name)
  then have r: "removes i (inventory_of (step g operation i))"
    by (intro step_removes_other) simp_all
  from ChildExits have "lock_writer (inventory_of (step g operation i)) \<longrightarrow> lock_writer i"
    by (simp add: reaper_eq split: option.splits)
  with li r show ?thesis by (rule lock_inv_removes)
next
  case (Destroy env name)
  then have r: "removes i (inventory_of (step g operation i))"
    by (intro step_removes_other) simp_all
  from Destroy np DestroyInstance_outcome[of i g env name]
  have "lock_writer (inventory_of (step g operation i)) \<longrightarrow> lock_writer i"
    by (auto simp: forget_def)
  with li r show ?thesis by (rule lock_inv_removes)
next
  case (DestroyAll order envs)
  have r: "removes (if lock_free i then i\<lparr>shuttingDown := True\<rparr> else i)
      (inventory_of (DestroyAllInstances g order envs i))"
    by (rule DestroyAllInstances_removes)
  from DestroyAll np have "\<forall>i1. DestroyAllInstances g order envs i \<noteq> Panics i1"
    by (auto simp: forget_def split: outcome.splits)
  from DestroyAllInstances_writer[OF this]
  have wr: "lock_writer (inventory_of (DestroyAllInstances g order envs i)) \<longrightarrow> lock_writer i" .
  from r li wr DestroyAll show ?thesis
    by (auto simp: lock_inv_def removes_def split: if_splits)
next
  case (GetAll order)
  with li show ?thesis by (simp add: GetAllInstances_eq)
next
  case (ConnectInfoOf marshal name)
  with li show ?thesis
    by (auto simp: GetConnectInfo_eq lock_inv_def split: option.splits marshalled.splits)
next
  case (Nftables env)
  with li show ?thesis by simp
qed

lemma run_lock_inv:
  "inventory_inv g i \<Longrightarrow> lock_inv g i \<Longrightarrow> lock_inv g (run g ops i)"
proof (induction ops arbitrary: i)
  case Nil
  then show ?case by simp
next
  case (Cons operation rest)
  from step_inv[OF Cons.prems(1), of operation]
  have s: "inventory_inv g (inventory_of (step g operation i))" .
  show ?case
  proof (cases "step g operation i")
    case (Panics i1)
    with Cons.prems show ?thesis by simp
  next
    case (Returns i1 u)
    then have "\<forall>i2. step g operation i \<noteq> Panics i2" by simp
    from step_lock_inv[OF Cons.prems this] Returns s Cons.IH[of i1] show ?thesis by simp
  next
    case (Blocks i1)
    then have "\<forall>i2. step g operation i \<noteq> Panics i2" by simp
    from step_lock_inv[OF Cons.prems this] Blocks s Cons.IH[of i1] show ?thesis by simp
  qed
qed

text \<open>
  Claim C5. The invariants \<open>inventory_inv\<close> and \<open>lock_inv\<close> hold of the new inventory and
  are kept by every sequence of operations (boots, destroys, child exits, shutdown and the
  queries), whatever the environment does. In every inventory that satisfies them, at
  most 63 slots are reserved and at most 63 instances are registered; and when 63 slots
  are reserved, \<open>BootInstance\<close> leaves the inventory as it is and returns
  \<open>available VM address space exhausted\<close>.
\<close>

theorem capacity_cap:
  "inventory_inv g NewInventory \<and> lock_inv g NewInventory \<and>
   (inventory_inv g i \<and> lock_inv g i \<longrightarrow>
      inventory_inv g (run g ops i) \<and> lock_inv g (run g ops i) \<and>
      card (ipamSlots i) \<le> 63 \<and> card (dom (instances i)) \<le> 63 \<and>
      (card (ipamSlots i) = 63 \<longrightarrow>
         BootInstance g penv env i = Returns i (Some ErrAddressSpaceExhausted)))"
proof (intro conjI impI)
  show "inventory_inv g NewInventory" by (rule inv_NewInventory)
  show "lock_inv g NewInventory" by (simp add: lock_inv_def NewInventory_def)
next
  assume a: "inventory_inv g i \<and> lock_inv g i"
  then have i: "inventory_inv g i" and l: "lock_inv g i" by simp_all
  from i show "inventory_inv g (run g ops i)" by (rule run_inv)
  from i l show "lock_inv g (run g ops i)" by (rule run_lock_inv)
  from inv_card(1,2)[OF i] show "card (ipamSlots i) \<le> 63" "card (dom (instances i)) \<le> 63" .
  assume c: "card (ipamSlots i) = 63"
  have "\<not> lock_writer i"
  proof
    assume "lock_writer i"
    with l have "ipamSlots i \<subseteq> {slot_key g 0}" by (simp add: lock_inv_def)
    then have "card (ipamSlots i) \<le> card {slot_key g 0}" by (intro card_mono) simp_all
    with c show False by simp
  qed
  moreover from inv_card(3)[OF i c] have "BootInstance g penv env i = boot_worker g env i"
    by (rule BootInstance_done)
  ultimately show "BootInstance g penv env i = Returns i (Some ErrAddressSpaceExhausted)"
    using c by (simp add: boot_worker_eq MaxIPAMSlots_def)
qed

theorem capacity_cap_witness:
  "inventory_inv example_group (NewInventory\<lparr>prebuild_done := True, ipamSlots := all_slots example_group\<rparr>) \<and>
   lock_inv example_group (NewInventory\<lparr>prebuild_done := True, ipamSlots := all_slots example_group\<rparr>) \<and>
   card (ipamSlots (NewInventory\<lparr>prebuild_done := True, ipamSlots := all_slots example_group\<rparr>)) = 63 \<and>
   BootInstance example_group prebuild_ok boot_ok
       (NewInventory\<lparr>prebuild_done := True, ipamSlots := all_slots example_group\<rparr>) =
     Returns (NewInventory\<lparr>prebuild_done := True, ipamSlots := all_slots example_group\<rparr>)
       (Some ErrAddressSpaceExhausted) \<and>
   card (ipamSlots (run example_group [Boot prebuild_ok boot_ok]
       (NewInventory\<lparr>prebuild_done := True, ipamSlots := all_slots example_group\<rparr>))) \<le> 63"
proof -
  let ?i = "NewInventory\<lparr>prebuild_done := True, ipamSlots := all_slots example_group\<rparr>"
  have inv: "inventory_inv example_group ?i"
    by (simp add: inventory_inv_def NewInventory_def)
  have li: "lock_inv example_group ?i"
    by (simp add: lock_inv_def NewInventory_def)
  have c: "card (ipamSlots ?i) = 63" by code_simp
  note T = capacity_cap[of example_group ?i "[Boot prebuild_ok boot_ok]" prebuild_ok boot_ok]
  from T inv li have r: "inventory_inv example_group (run example_group [Boot prebuild_ok boot_ok] ?i) \<and>
      lock_inv example_group (run example_group [Boot prebuild_ok boot_ok] ?i)"
    by blast
  from T inv li c have b: "BootInstance example_group prebuild_ok boot_ok ?i =
      Returns ?i (Some ErrAddressSpaceExhausted)"
    by blast
  from capacity_cap[of example_group "run example_group [Boot prebuild_ok boot_ok] ?i" "[]" prebuild_ok boot_ok] r
  have "card (ipamSlots (run example_group [Boot prebuild_ok boot_ok] ?i)) \<le> 63" by blast
  with inv li c b show ?thesis by blast
qed

end
